theory Spec2Isabelle
  imports Main
begin

section \<open>Data model of the browser-like window\<close>

text \<open>
  The manager class \<open>BrowserLikeWindow\<close> of the repository keeps an ordered list of tab
  identifiers, a record of navigation state per tab, the live views, the identifier of
  the active view and the reply handle of the control panel. Its methods mutate these
  fields and call into the windowing runtime; here every method takes the state and
  returns the new one, and every call into the runtime that a property below talks about
  is appended to a trace of effects.

  A \<open>TabID\<close> is a JavaScript number; the identifiers the runtime hands out are integers.
  A value that may be \<open>undefined\<close> or \<open>null\<close> is an \<open>option\<close>.
\<close>

type_synonym TabID = int

type_synonym ipc_event = nat

text \<open>
  The interface \<open>Tab\<close>. An object built by spreading may lack any of the fields, and a
  field may hold \<open>undefined\<close>; both read as \<open>None\<close>.
\<close>

record Tab =
  url :: "string option"
  href :: "string option"
  title :: "string option"
  favicon :: "string option"
  isLoading :: "bool option"
  canGoBack :: "bool option"
  canGoForward :: "bool option"

text \<open>
  \<open>Partial<Tab>\<close>, the argument \<open>kv\<close> of \<open>setTabConfig\<close>: \<open>None\<close> is a key the object
  does not have, \<open>Some v\<close> a key it has with the value \<open>v\<close> (which may be \<open>undefined\<close>,
  as in \<open>{ favicon: favicons[0] }\<close> for an empty list).
\<close>

record TabPatch =
  p_url :: "string option option"
  p_href :: "string option option"
  p_title :: "string option option"
  p_favicon :: "string option option"
  p_isLoading :: "bool option option"
  p_canGoBack :: "bool option option"
  p_canGoForward :: "bool option option"

type_synonym Tabs = "TabID \<Rightarrow> Tab option"

text \<open>
  The window-open handler installed on a session: the handler supplied in the options, or
  the closure \<open>onNewWindow\<close> of \<open>loadURL\<close>, which captures the identifier of the view it was
  created for.
\<close>

datatype window_handler = Custom_handler | Default_handler TabID

text \<open>
  A \<open>BrowserView\<close> with its \<open>webContents\<close>. The marker \<open>__IS_INITIALIZED__\<close>, the handler and
  the listeners are what \<open>loadURL\<close> writes; \<open>wc_loads\<close> lists the calls of
  \<open>webContents.loadURL\<close> in order. What \<open>canGoBack()\<close>, \<open>canGoForward()\<close> and \<open>getURL()\<close>
  answer belongs to the runtime's session: the fields \<open>wc_canGoBack\<close>, \<open>wc_canGoForward\<close> and
  \<open>wc_URL\<close> hold the answer the session gives in this state.
\<close>

record TabView =
  wc_initialized :: bool
  wc_handler :: "window_handler option"
  wc_handler_sets :: nat
  wc_listener_sets :: nat
  wc_loads :: "string list"
  wc_canGoBack :: bool
  wc_canGoForward :: bool
  wc_URL :: string

text \<open>The options the methods read.\<close>

record Options =
  startPage :: "string option"
  blankPage :: "string option"
  blankTitle :: "string option"
  custom_onNewWindow :: bool
  debug :: bool

text \<open>Messages sent to the control panel with \<open>ipc.reply\<close>.\<close>

datatype notification =
    Active_update "TabID option"
  | Tabs_update Tabs "TabID list"

text \<open>Calls into the runtime and events emitted to the host, in the order they happen.\<close>

datatype effect =
    Layout "TabID option"
  | Reply ipc_event notification
  | Emit string
  | AddBrowserView TabID
  | RemoveBrowserView TabID
  | Focus TabID
  | Destroy TabID
  | OpenDevTools TabID
  | Call TabID string
  | LogError string

record BrowserLikeWindow =
  options :: Options
  defCurrentViewId :: "TabID option"
  defTabConfigs :: Tabs
  views :: "TabID \<Rightarrow> TabView option"
  tabs :: "TabID list"
  ipc :: "ipc_event option"
  controlView :: bool
  effects :: "effect list"

text \<open>The state the constructor leaves: no tab, no view, no reply handle.\<close>

definition init :: "Options \<Rightarrow> BrowserLikeWindow" where
  "init opts =
     \<lparr>options = opts, defCurrentViewId = None, defTabConfigs = (\<lambda>_. None),
      views = (\<lambda>_. None), tabs = [], ipc = None, controlView = True, effects = []\<rparr>"

text \<open>A view as \<open>new BrowserView\<close> returns it: nothing loaded, nothing registered.\<close>

definition new_BrowserView :: TabView where
  "new_BrowserView =
     \<lparr>wc_initialized = False, wc_handler = None, wc_handler_sets = 0,
      wc_listener_sets = 0, wc_loads = [], wc_canGoBack = False,
      wc_canGoForward = False, wc_URL = []\<rparr>"

section \<open>JavaScript primitives used by the methods\<close>

text \<open>\<open>Array.prototype.indexOf\<close>: the first position of the element, or \<open>-1\<close>.\<close>

fun indexOf :: "'a list \<Rightarrow> 'a \<Rightarrow> int" where
  "indexOf [] x = - 1"
| "indexOf (y # ys) x =
     (if y = x then 0
      else (let i = indexOf ys x in if i < 0 then - 1 else i + 1))"

text \<open>Reading \<open>xs[i]\<close>: \<open>undefined\<close> outside the array.\<close>

definition js_nth :: "'a list \<Rightarrow> int \<Rightarrow> 'a option" where
  "js_nth xs i = (if 0 \<le> i \<and> i < int (length xs) then Some (xs ! nat i) else None)"

text \<open>\<open>xs.splice(start, 0, x)\<close>: a negative start counts from the end, and the start is
  clamped to the array.\<close>

definition splice_insert :: "'a list \<Rightarrow> int \<Rightarrow> 'a \<Rightarrow> 'a list" where
  "splice_insert xs start x =
     (let n = int (length xs);
          st = (if start < 0 then max (n + start) 0 else min start n)
      in take (nat st) xs @ [x] @ drop (nat st) xs)"

section \<open>Methods of the manager\<close>

definition log_effect :: "effect \<Rightarrow> BrowserLikeWindow \<Rightarrow> BrowserLikeWindow" where
  "log_effect e s = s\<lparr>effects := effects s @ [e]\<rparr>"

text \<open>The getter \<open>currentView\<close>, with the identifier the view is stored under (its \<open>id\<close>:
  \<open>newTab\<close>, the only writer of \<open>views\<close>, stores a view under its own \<open>id\<close>).\<close>

definition currentView :: "BrowserLikeWindow \<Rightarrow> (TabID \<times> TabView) option" where
  "currentView s =
     (case defCurrentViewId s of
        None \<Rightarrow> None
      | Some i \<Rightarrow> if i = 0 then None
                  else (case views s i of None \<Rightarrow> None | Some v \<Rightarrow> Some (i, v)))"

text \<open>\<open>setContentBounds\<close>: one recomputation of the layout; the active view, when there is
  one, gets the bounds.\<close>

definition setContentBounds :: "BrowserLikeWindow \<Rightarrow> BrowserLikeWindow" where
  "setContentBounds s = log_effect (Layout (map_option fst (currentView s))) s"

text \<open>The setter of \<open>currentViewId\<close>.\<close>

definition set_currentViewId :: "TabID option \<Rightarrow> BrowserLikeWindow \<Rightarrow> BrowserLikeWindow" where
  "set_currentViewId ident s =
     (let s1 = setContentBounds (s\<lparr>defCurrentViewId := ident\<rparr>)
      in case ipc s1 of
           None \<Rightarrow> s1
         | Some e \<Rightarrow> log_effect (Reply e (Active_update ident)) s1)"

text \<open>The setter of \<open>tabConfigs\<close>.\<close>

definition set_tabConfigs :: "Tabs \<Rightarrow> BrowserLikeWindow \<Rightarrow> BrowserLikeWindow" where
  "set_tabConfigs v s =
     (let s1 = s\<lparr>defTabConfigs := v\<rparr>
      in case ipc s1 of
           None \<Rightarrow> s1
         | Some e \<Rightarrow> log_effect (Reply e (Tabs_update v (tabs s1))) s1)"

text \<open>The object \<open>{...tab}\<close> for an absent \<open>tab\<close>.\<close>

definition no_fields :: Tab where
  "no_fields =
     \<lparr>url = None, href = None, title = None, favicon = None, isLoading = None,
      canGoBack = None, canGoForward = None\<rparr>"

definition no_keys :: TabPatch where
  "no_keys =
     \<lparr>p_url = None, p_href = None, p_title = None, p_favicon = None, p_isLoading = None,
      p_canGoBack = None, p_canGoForward = None\<rparr>"

text \<open>Spreading \<open>...kv\<close> last: a key of \<open>kv\<close> replaces the field.\<close>

definition spread :: "TabPatch \<Rightarrow> Tab \<Rightarrow> Tab" where
  "spread kv t =
     \<lparr>url = (case p_url kv of None \<Rightarrow> url t | Some v \<Rightarrow> v),
      href = (case p_href kv of None \<Rightarrow> href t | Some v \<Rightarrow> v),
      title = (case p_title kv of None \<Rightarrow> title t | Some v \<Rightarrow> v),
      favicon = (case p_favicon kv of None \<Rightarrow> favicon t | Some v \<Rightarrow> v),
      isLoading = (case p_isLoading kv of None \<Rightarrow> isLoading t | Some v \<Rightarrow> v),
      canGoBack = (case p_canGoBack kv of None \<Rightarrow> canGoBack t | Some v \<Rightarrow> v),
      canGoForward = (case p_canGoForward kv of None \<Rightarrow> canGoForward t | Some v \<Rightarrow> v)\<rparr>"

text \<open>\<open>webContents?.canGoBack() ?? false\<close> and its twin, for the view stored under the
  identifier.\<close>

definition session_canGoBack :: "BrowserLikeWindow \<Rightarrow> TabID \<Rightarrow> bool" where
  "session_canGoBack s viewId =
     (case views s viewId of None \<Rightarrow> False | Some v \<Rightarrow> wc_canGoBack v)"

definition session_canGoForward :: "BrowserLikeWindow \<Rightarrow> TabID \<Rightarrow> bool" where
  "session_canGoForward s viewId =
     (case views s viewId of None \<Rightarrow> False | Some v \<Rightarrow> wc_canGoForward v)"

definition setTabConfig :: "TabID \<Rightarrow> TabPatch \<Rightarrow> BrowserLikeWindow \<Rightarrow> BrowserLikeWindow" where
  "setTabConfig viewId kv s =
     (let tab = (case defTabConfigs s viewId of None \<Rightarrow> no_fields | Some t \<Rightarrow> t);
          merged = spread kv
            (tab\<lparr>canGoBack := Some (session_canGoBack s viewId),
                 canGoForward := Some (session_canGoForward s viewId)\<rparr>)
      in set_tabConfigs ((defTabConfigs s)(viewId := Some merged)) s)"

text \<open>
  \<open>loadURL\<close>. On a session without the marker it installs the window-open handler,
  registers the seven listeners, loads the address, sets the marker and recomputes the
  layout; on a marked session it only loads the address.
\<close>

definition loadURL :: "string \<Rightarrow> BrowserLikeWindow \<Rightarrow> BrowserLikeWindow" where
  "loadURL u s =
     (case currentView s of
        None \<Rightarrow> s
      | Some (i, cv) \<Rightarrow>
          if u = [] then s
          else if wc_initialized cv
          then s\<lparr>views := (views s)(i := Some (cv\<lparr>wc_loads := wc_loads cv @ [u]\<rparr>))\<rparr>
          else
            (let cv' = cv\<lparr>wc_handler :=
                            Some (if custom_onNewWindow (options s) then Custom_handler
                                  else Default_handler i),
                          wc_handler_sets := Suc (wc_handler_sets cv),
                          wc_listener_sets := Suc (wc_listener_sets cv),
                          wc_loads := wc_loads cv @ [u],
                          wc_initialized := True\<rparr>;
                 s1 = setContentBounds (s\<lparr>views := (views s)(i := Some cv')\<rparr>)
             in if debug (options s) then log_effect (OpenDevTools i) s1 else s1))"

definition setCurrentView :: "TabID option \<Rightarrow> BrowserLikeWindow \<Rightarrow> BrowserLikeWindow" where
  "setCurrentView viewId s =
     (case viewId of
        None \<Rightarrow> s
      | Some v \<Rightarrow>
          if v = 0 then s
          else
            (let s1 = (case currentView s of
                         None \<Rightarrow> s
                       | Some (i, _) \<Rightarrow> log_effect (RemoveBrowserView i) s);
                 s2 = (case views s1 v of
                         None \<Rightarrow> s1
                       | Some _ \<Rightarrow> log_effect (AddBrowserView v) s1)
             in set_currentViewId (Some v) s2))"

text \<open>
  \<open>newTab\<close>. The argument \<open>vid\<close> is \<open>view.webContents.id\<close>, the identifier the runtime gave
  the session of the new view. The \<open>references\<close> argument only reaches the constructor of
  the view and is left out.
\<close>

definition newTab ::
  "string option \<Rightarrow> TabID option \<Rightarrow> TabID \<Rightarrow> BrowserLikeWindow \<Rightarrow> BrowserLikeWindow" where
  "newTab u appendTo vid s =
     (let order = (case appendTo of
                     None \<Rightarrow> tabs s @ [vid]
                   | Some a \<Rightarrow>
                       if a = 0 then tabs s @ [vid]
                       else splice_insert (tabs s) (indexOf (tabs s) a + 1) vid);
          s1 = s\<lparr>tabs := order, views := (views s)(vid := Some new_BrowserView)\<rparr>;
          s2 = setCurrentView (Some vid) s1;
          s3 = (case u of
                  None \<Rightarrow> s2
                | Some a \<Rightarrow> if a = [] then s2 else loadURL a s2);
          s4 = setTabConfig vid
                 (no_keys\<lparr>p_title :=
                    Some (Some (case blankTitle (options s3) of
                                  None \<Rightarrow> ''about:blank''
                                | Some b \<Rightarrow> if b = [] then ''about:blank'' else b))\<rparr>)
                 s3
      in log_effect (Emit ''new-tab'') s4)"

definition switchTab :: "TabID \<Rightarrow> BrowserLikeWindow \<Rightarrow> BrowserLikeWindow" where
  "switchTab viewId s =
     (let s1 = setCurrentView (Some viewId) s
      in case currentView s1 of
           None \<Rightarrow> s1
         | Some (i, _) \<Rightarrow> log_effect (Focus i) s1)"

definition destroyView :: "TabID \<Rightarrow> BrowserLikeWindow \<Rightarrow> BrowserLikeWindow" where
  "destroyView viewId s =
     (case views s viewId of
        None \<Rightarrow> s
      | Some _ \<Rightarrow> log_effect (Destroy viewId) (s\<lparr>views := (views s)(viewId := None)\<rparr>))"

section \<open>The channels of the control panel\<close>

text \<open>
  The listener of \<open>close-tab\<close>. The argument \<open>vid\<close> is the identifier the runtime gives
  the view of the blank tab, should the listener create one.
\<close>

definition close_tab :: "TabID \<Rightarrow> TabID \<Rightarrow> BrowserLikeWindow \<Rightarrow> BrowserLikeWindow" where
  "close_tab ident vid s =
     (let s1 = (if Some ident = defCurrentViewId s
                then (let removeIndex = indexOf (tabs s) ident;
                          nextIndex = (if removeIndex = int (length (tabs s)) - 1 then 0
                                       else removeIndex + 1)
                      in setCurrentView (js_nth (tabs s) nextIndex) s)
                else s);
          s2 = s1\<lparr>tabs := filter (\<lambda>v. v \<noteq> ident) (tabs s1)\<rparr>;
          s3 = set_tabConfigs ((defTabConfigs s2)(ident := None)) s2;
          s4 = destroyView ident s3
      in if tabs s4 = [] then newTab (blankPage (options s4)) None vid s4 else s4)"

text \<open>The listener of \<open>url-change\<close>.\<close>

definition url_change :: "string \<Rightarrow> BrowserLikeWindow \<Rightarrow> BrowserLikeWindow" where
  "url_change u s =
     (case defCurrentViewId s of
        None \<Rightarrow> s
      | Some c \<Rightarrow> if c = 0 then s else setTabConfig c (no_keys\<lparr>p_url := Some (Some u)\<rparr>) s)"

text \<open>The listener of \<open>control-ready\<close>: it keeps the event as the reply handle and opens
  the start page.\<close>

definition control_ready :: "ipc_event \<Rightarrow> TabID \<Rightarrow> BrowserLikeWindow \<Rightarrow> BrowserLikeWindow" where
  "control_ready e vid s =
     (let s1 = s\<lparr>ipc := Some e\<rparr>;
          page = (case startPage (options s1) of
                    None \<Rightarrow> []
                  | Some p \<Rightarrow> p);
          s2 = newTab (Some page) None vid s1
      in log_effect (Emit ''control-ready'') s2)"

text \<open>
  \<open>webContentsAct\<close>, the listener of \<open>act\<close>. What a method of the session does to the
  session is the runtime's business; the call is recorded. The source calls whatever
  function the session has under the name; here the names that count as callable are
  the four the control panel's own senders use (\<open>goBack\<close>, \<open>goForward\<close>, \<open>reload\<close>,
  \<open>stop\<close>), so an execution in which another method of the session is called through
  this channel is not among the executions below.
\<close>

definition webContentsAct :: "string \<Rightarrow> BrowserLikeWindow \<Rightarrow> BrowserLikeWindow" where
  "webContentsAct actionName s =
     (case currentView s of
        None \<Rightarrow> s
      | Some (i, cv) \<Rightarrow>
          if actionName \<in> set [''goBack'', ''goForward'', ''reload'', ''stop'']
          then (if actionName = ''reload'' \<and> wc_URL cv = [] then s
                else log_effect (Call i actionName) s)
          else log_effect (LogError actionName) s)"

datatype command =
    Control_ready ipc_event
  | Url_change string
  | Url_enter string
  | Act string
  | New_tab "string option"
  | Switch_tab TabID
  | Close_tab TabID

fun channels :: "command \<Rightarrow> TabID \<Rightarrow> BrowserLikeWindow \<Rightarrow> BrowserLikeWindow" where
  "channels (Control_ready e) vid s = control_ready e vid s"
| "channels (Url_change u) vid s = url_change u s"
| "channels (Url_enter u) vid s = loadURL u s"
| "channels (Act a) vid s = webContentsAct a s"
| "channels (New_tab u) vid s = newTab u None vid s"
| "channels (Switch_tab i) vid s = switchTab i s"
| "channels (Close_tab i) vid s = close_tab i vid s"

text \<open>
  The wrapper every listener is registered under: a message is handled when the control
  view is alive and the message comes from it (\<open>own\<close>).
\<close>

definition receive :: "bool \<Rightarrow> command \<Rightarrow> TabID \<Rightarrow> BrowserLikeWindow \<Rightarrow> BrowserLikeWindow" where
  "receive own c vid s = (if controlView s \<and> own then channels c vid s else s)"

text \<open>The handler of the window's \<open>closed\<close> event.\<close>

definition win_closed :: "BrowserLikeWindow \<Rightarrow> BrowserLikeWindow" where
  "win_closed s =
     (let s1 = fold destroyView (tabs s) s;
          s2 = (if controlView s1 then s1\<lparr>controlView := False\<rparr> else s1)
      in log_effect (Emit ''closed'') s2)"

section \<open>Signals of a session\<close>

text \<open>
  The listeners \<open>loadURL\<close> registers on a session, as one function of the signal; \<open>ident\<close>
  is the identifier the closures captured.
\<close>

datatype signal =
    Did_start_loading
  | Did_start_navigation string bool bool
  | Will_redirect string
  | Page_title_updated string
  | Page_favicon_updated "string list"
  | Did_stop_loading
  | Dom_ready

fun listener :: "TabID \<Rightarrow> signal \<Rightarrow> BrowserLikeWindow \<Rightarrow> BrowserLikeWindow" where
  "listener ident Did_start_loading s =
     setTabConfig ident (no_keys\<lparr>p_isLoading := Some (Some True)\<rparr>) s"
| "listener ident (Did_start_navigation h isInPlace isMainFrame) s =
     (if isMainFrame
      then log_effect (Emit ''url-updated'')
             (setTabConfig ident (no_keys\<lparr>p_url := Some (Some h), p_href := Some (Some h)\<rparr>) s)
      else s)"
| "listener ident (Will_redirect h) s =
     log_effect (Emit ''url-updated'')
       (setTabConfig ident (no_keys\<lparr>p_url := Some (Some h), p_href := Some (Some h)\<rparr>) s)"
| "listener ident (Page_title_updated t) s =
     setTabConfig ident (no_keys\<lparr>p_title := Some (Some t)\<rparr>) s"
| "listener ident (Page_favicon_updated favicons) s =
     setTabConfig ident
       (no_keys\<lparr>p_favicon := Some (case favicons of [] \<Rightarrow> None | f # _ \<Rightarrow> Some f)\<rparr>) s"
| "listener ident Did_stop_loading s =
     setTabConfig ident (no_keys\<lparr>p_isLoading := Some (Some False)\<rparr>) s"
| "listener ident Dom_ready s = log_effect (Focus ident) s"

text \<open>
  The runtime raising a signal on the session of a live view: every registered set of
  listeners runs once.
\<close>

definition fire :: "TabID \<Rightarrow> signal \<Rightarrow> BrowserLikeWindow \<Rightarrow> BrowserLikeWindow" where
  "fire ident sig s =
     (case views s ident of
        None \<Rightarrow> s
      | Some v \<Rightarrow> (listener ident sig ^^ wc_listener_sets v) s)"

section \<open>The window-open handler\<close>

text \<open>
  \<open>HandlerDetails\<close>, as far as the handler reads it, and the answer of the handler.
\<close>

datatype disposition = Default_disposition | Foreground_tab | Background_tab | New_window | Other

record HandlerDetails =
  d_url :: string
  d_frameName :: string
  d_disposition :: disposition

datatype action = Deny | Allow

datatype js_error = TypeError

text \<open>
  The closure \<open>onNewWindow\<close> that \<open>loadURL\<close> builds for the view \<open>ident\<close>. The constructor
  \<open>URL\<close> is the platform's: \<open>hostOf u\<close> is \<open>None\<close> when \<open>new URL(u)\<close> throws its
  \<open>TypeError\<close>, and \<open>Some h\<close> when it returns a URL whose \<open>host\<close> is \<open>h\<close>. An exception
  leaves the handler before it has touched the state.
\<close>

definition onNewWindow ::
  "(string \<Rightarrow> string option) \<Rightarrow> TabID \<Rightarrow> HandlerDetails \<Rightarrow> TabID \<Rightarrow> BrowserLikeWindow
     \<Rightarrow> js_error + (action \<times> BrowserLikeWindow)" where
  "onNewWindow hostOf ident detail vid s =
     (case hostOf (d_url detail) of
        None \<Rightarrow> Inl TypeError
      | Some h \<Rightarrow>
          if h = [] then Inr (Deny, s)
          else if d_disposition detail = New_window then Inr (Allow, s)
          else Inr (Deny, newTab (Some (d_url detail)) (Some ident) vid s))"

section \<open>Executions\<close>

text \<open>
  What can happen to a manager: a message on a channel (from its own control view or
  from another one), a call of a public method by the host, a signal of a session, a
  page asking for a window, the session of a view changing what it answers, and the
  window closing. With each occurrence comes the identifier the runtime would give a
  view created while it is handled.
\<close>

datatype occurrence =
    Receive bool command
  | Api_newTab "string option" "TabID option"
  | Api_loadURL string
  | Api_switchTab TabID
  | Signal TabID signal
  | Window_open TabID HandlerDetails
  | Session_changed TabID bool bool string
  | Win_closed

text \<open>The runtime asking the handler installed on the session of a view.\<close>

definition window_open ::
  "(string \<Rightarrow> string option) \<Rightarrow> TabID \<Rightarrow> HandlerDetails \<Rightarrow> TabID \<Rightarrow> BrowserLikeWindow
     \<Rightarrow> BrowserLikeWindow" where
  "window_open hostOf i detail vid s =
     (case views s i of
        None \<Rightarrow> s
      | Some v \<Rightarrow>
          (case wc_handler v of
             Some (Default_handler ident) \<Rightarrow>
               (case onNewWindow hostOf ident detail vid s of
                  Inl _ \<Rightarrow> s
                | Inr (_, s') \<Rightarrow> s')
           | _ \<Rightarrow> s))"

definition session_changed ::
  "TabID \<Rightarrow> bool \<Rightarrow> bool \<Rightarrow> string \<Rightarrow> BrowserLikeWindow \<Rightarrow> BrowserLikeWindow" where
  "session_changed i back forward address s =
     (case views s i of
        None \<Rightarrow> s
      | Some v \<Rightarrow>
          s\<lparr>views := (views s)(i := Some (v\<lparr>wc_canGoBack := back, wc_canGoForward := forward,
                                                 wc_URL := address\<rparr>))\<rparr>)"

fun step ::
  "(string \<Rightarrow> string option) \<Rightarrow> occurrence \<Rightarrow> TabID \<Rightarrow> BrowserLikeWindow \<Rightarrow> BrowserLikeWindow" where
  "step hostOf (Receive own c) vid s = receive own c vid s"
| "step hostOf (Api_newTab u a) vid s = newTab u a vid s"
| "step hostOf (Api_loadURL u) vid s = loadURL u s"
| "step hostOf (Api_switchTab i) vid s = switchTab i s"
| "step hostOf (Signal i sig) vid s = fire i sig s"
| "step hostOf (Window_open i d) vid s = window_open hostOf i d vid s"
| "step hostOf (Session_changed i b f a) vid s = session_changed i b f a s"
| "step hostOf Win_closed vid s = win_closed s"

fun run ::
  "(string \<Rightarrow> string option) \<Rightarrow> (occurrence \<times> TabID) list \<Rightarrow> BrowserLikeWindow
     \<Rightarrow> BrowserLikeWindow" where
  "run hostOf [] s = s"
| "run hostOf ((x, vid) # xs) s = run hostOf xs (step hostOf x vid s)"

text \<open>
  An execution in which the identifier that comes with each occurrence is one the runtime
  can give a new view: not zero, and not the identifier of a tab.
\<close>

fun fresh_run ::
  "(string \<Rightarrow> string option) \<Rightarrow> (occurrence \<times> TabID) list \<Rightarrow> BrowserLikeWindow \<Rightarrow> bool" where
  "fresh_run hostOf [] s = True"
| "fresh_run hostOf ((x, vid) # xs) s =
     (vid \<noteq> 0 \<and> vid \<notin> set (tabs s) \<and> fresh_run hostOf xs (step hostOf x vid s))"

text \<open>The handshake: \<open>control-ready\<close> from the own control view.\<close>

fun is_handshake :: "occurrence \<Rightarrow> bool" where
  "is_handshake (Receive own (Control_ready e)) = own"
| "is_handshake _ = False"

text \<open>Creating and closing tabs, with the identifier the runtime gives the new view.\<close>

datatype tab_op =
    Create "string option" "TabID option" TabID
  | Close TabID TabID

fun apply_op :: "tab_op \<Rightarrow> BrowserLikeWindow \<Rightarrow> BrowserLikeWindow" where
  "apply_op (Create u a vid) s = newTab u a vid s"
| "apply_op (Close i vid) s = close_tab i vid s"

fun run_ops :: "tab_op list \<Rightarrow> BrowserLikeWindow \<Rightarrow> BrowserLikeWindow" where
  "run_ops [] s = s"
| "run_ops (p # ps) s = run_ops ps (apply_op p s)"

fun new_id :: "tab_op \<Rightarrow> TabID" where
  "new_id (Create u a vid) = vid"
| "new_id (Close i vid) = vid"

text \<open>
  The runtime numbers sessions from one and gives no two live sessions the same number:
  at each operation the new identifier is not zero and is not the identifier of a tab.
\<close>

fun ids_fresh :: "tab_op list \<Rightarrow> BrowserLikeWindow \<Rightarrow> bool" where
  "ids_fresh [] s = True"
| "ids_fresh (p # ps) s =
     (new_id p \<noteq> 0 \<and> new_id p \<notin> set (tabs s) \<and> ids_fresh ps (apply_op p s))"

section \<open>Observations\<close>

text \<open>The active pointer is absent and there is no tab, or it is one of the tabs.\<close>

definition active_ok :: "BrowserLikeWindow \<Rightarrow> bool" where
  "active_ok s =
     (case defCurrentViewId s of
        None \<Rightarrow> tabs s = []
      | Some c \<Rightarrow> c \<in> set (tabs s))"

text \<open>An order without repetition and without zero.\<close>

definition tabs_ok :: "TabID list \<Rightarrow> bool" where
  "tabs_ok xs = (distinct xs \<and> 0 \<notin> set xs)"

text \<open>The tab order of a state the create and close operations can reach.\<close>

definition order_ok :: "BrowserLikeWindow \<Rightarrow> bool" where
  "order_ok s = (distinct (tabs s) \<and> 0 \<notin> set (tabs s) \<and> active_ok s)"

text \<open>Recomputations of the layout, and the messages replied, in a trace.\<close>

fun count_layouts :: "effect list \<Rightarrow> nat" where
  "count_layouts [] = 0"
| "count_layouts (Layout v # es) = Suc (count_layouts es)"
| "count_layouts (_ # es) = count_layouts es"

fun replied :: "effect list \<Rightarrow> notification list" where
  "replied [] = []"
| "replied (Reply e n # es) = n # replied es"
| "replied (_ # es) = replied es"

definition layouts :: "BrowserLikeWindow \<Rightarrow> nat" where
  "layouts s = count_layouts (effects s)"

definition notifications :: "BrowserLikeWindow \<Rightarrow> notification list" where
  "notifications s = replied (effects s)"

text \<open>
  What the control panel and the window see of a trace, in order: a recomputation of the
  layout, or a message replied.
\<close>

datatype observed = Relayout | Sent notification

fun observe :: "effect list \<Rightarrow> observed list" where
  "observe [] = []"
| "observe (Layout v # es) = Relayout # observe es"
| "observe (Reply e n # es) = Sent n # observe es"
| "observe (_ # es) = observe es"

definition observations :: "BrowserLikeWindow \<Rightarrow> observed list" where
  "observations s = observe (effects s)"

text \<open>
  The tab that follows \<open>i\<close> in the order \<open>xs\<close>, the first tab when \<open>i\<close> is the last one;
  it is read only for a tab \<open>i\<close> of the order.
\<close>

definition next_in_order :: "TabID list \<Rightarrow> TabID \<Rightarrow> TabID" where
  "next_in_order xs i = hd (tl (dropWhile (\<lambda>v. v \<noteq> i) xs) @ xs)"

text \<open>The title a new tab gets.\<close>

definition blank_title :: "Options \<Rightarrow> string" where
  "blank_title opts =
     (case blankTitle opts of
        None \<Rightarrow> ''about:blank''
      | Some b \<Rightarrow> if b = [] then ''about:blank'' else b)"

text \<open>The tab that \<open>close-tab\<close> hands to \<open>setCurrentView\<close> when it closes the active tab
  \<open>i\<close> of the order \<open>xs\<close>.\<close>

definition successor :: "TabID list \<Rightarrow> TabID \<Rightarrow> TabID option" where
  "successor xs i =
     (let removeIndex = indexOf xs i;
          nextIndex = (if removeIndex = int (length xs) - 1 then 0 else removeIndex + 1)
      in js_nth xs nextIndex)"

text \<open>
  A session is wired at most once: it carries one set of listeners and has had its
  window-open handler installed once when it bears the marker, and none when it does not.
\<close>

definition wired_once :: "TabView \<Rightarrow> bool" where
  "wired_once v =
     (wc_listener_sets v = (if wc_initialized v then 1 else 0)
      \<and> wc_handler_sets v = (if wc_initialized v then 1 else 0))"

definition views_wired :: "BrowserLikeWindow \<Rightarrow> bool" where
  "views_wired s = (\<forall>i v. views s i = Some v \<longrightarrow> wired_once v)"

section \<open>A reading of the platform's URL constructor\<close>

text \<open>
  The host that \<open>new URL(u).host\<close> returns, for the addresses evaluated below. It follows
  the URL Standard on what decides the handler: without a base, an input that does not
  start with a scheme (a letter, then letters, digits, \<open>+\<close>, \<open>-\<close> or \<open>.\<close>, then a colon) is
  rejected; after the scheme of a web address (\<open>http\<close>, \<open>https\<close>, \<open>ws\<close>, \<open>wss\<close>, \<open>ftp\<close>) the
  slashes are skipped, the host runs to the next \<open>/\<close>, \<open>?\<close> or \<open>#\<close> and must not be empty;
  after another scheme the host is what follows \<open>//\<close>, and empty when the rest does not
  start with \<open>//\<close>. Surrounding white space, credentials, ports, backslashes, the
  characters a host must not contain and the normalisation of the host (lower case,
  percent-decoding) are left out, so it is the platform's answer only on inputs without
  them. The theorems
  about the handler hold for every \<open>hostOf\<close>; this reading serves to evaluate the handler
  on concrete addresses.
\<close>

definition is_ascii_alpha :: "char \<Rightarrow> bool" where
  "is_ascii_alpha c =
     (c \<in> set ''abcdefghijklmnopqrstuvwxyzABCDEFGHIJKLMNOPQRSTUVWXYZ'')"

definition is_scheme_char :: "char \<Rightarrow> bool" where
  "is_scheme_char c = (is_ascii_alpha c \<or> c \<in> set ''0123456789+-.'')"

fun scheme_rest :: "string \<Rightarrow> (string \<times> string) option" where
  "scheme_rest [] = None"
| "scheme_rest (c # cs) =
     (if c = CHR '':'' then Some ([], cs)
      else if is_scheme_char c
      then (case scheme_rest cs of None \<Rightarrow> None | Some (a, r) \<Rightarrow> Some (c # a, r))
      else None)"

definition host_end :: "char \<Rightarrow> bool" where
  "host_end c = (c \<in> set ''/?#'')"

definition URL_host :: "string \<Rightarrow> string option" where
  "URL_host u =
     (case u of
        [] \<Rightarrow> None
      | c # _ \<Rightarrow>
          if \<not> is_ascii_alpha c then None
          else
            (case scheme_rest u of
               None \<Rightarrow> None
             | Some (scheme, rest) \<Rightarrow>
                 if scheme \<in> set [''http'', ''https'', ''ws'', ''wss'', ''ftp'']
                 then (let h = takeWhile (\<lambda>c. \<not> host_end c)
                                 (dropWhile (\<lambda>c. c = CHR ''/'') rest)
                       in if h = [] then None else Some h)
                 else if take 2 rest = ''//''
                 then Some (takeWhile (\<lambda>c. \<not> host_end c) (drop 2 rest))
                 else Some []))"

section \<open>Concrete states\<close>

text \<open>Options that leave every default in place.\<close>

definition plain_options :: Options where
  "plain_options =
     \<lparr>startPage = None, blankPage = None, blankTitle = None,
      custom_onNewWindow = False, debug = False\<rparr>"

text \<open>Three tabs in the order 1, 2, 3, the second one active, after the handshake.\<close>

definition three_tabs :: BrowserLikeWindow where
  "three_tabs =
     switchTab 2
       (newTab None None 3 (newTab None None 2 (control_ready 0 1 (init plain_options))))"

text \<open>One tab, and the control panel has asked to switch to an identifier that no tab
  has: the active pointer is outside the order.\<close>

definition stray_pointer :: BrowserLikeWindow where
  "stray_pointer = switchTab 99 (control_ready 0 1 (init plain_options))"

text \<open>
  A page that navigates in place. After the handshake the address bar loads an address
  in the first tab; the session signals the load, and its history has one entry. Then
  the page moves to a fragment of itself: the session signals the start of that
  navigation, and only afterwards, when the navigation commits, does it answer that it
  can go back. No signal follows.
\<close>

definition in_page_navigation :: "(occurrence \<times> TabID) list" where
  "in_page_navigation =
     [(Receive True (Control_ready 0), 1),
      (Receive True (Url_enter ''https://a.test/''), 0),
      (Signal 1 Did_start_loading, 0),
      (Signal 1 (Did_start_navigation ''https://a.test/'' False True), 0),
      (Session_changed 1 False False ''https://a.test/'', 0),
      (Signal 1 (Page_title_updated ''A''), 0),
      (Signal 1 Did_stop_loading, 0),
      (Signal 1 (Did_start_navigation ''https://a.test/#top'' True True), 0),
      (Session_changed 1 True False ''https://a.test/#top'', 0)]"

definition navigated_window :: BrowserLikeWindow where
  "navigated_window = run URL_host in_page_navigation (init plain_options)"

text \<open>Messages and a signal that reach the manager before any handshake: a tab is opened
  on an address, its session starts loading, the address bar changes, the tab is closed.\<close>

definition early_traffic :: "(occurrence \<times> TabID) list" where
  "early_traffic =
     [(Receive True (New_tab (Some ''https://a.test/'')), 1),
      (Signal 1 Did_start_loading, 0),
      (Receive True (Url_change ''https://b.test/''), 0),
      (Receive True (Close_tab 1), 2)]"

section \<open>Properties\<close>

subsection \<open>What each method leaves alone\<close>

lemma log_effect_fields [simp]:
  "options (log_effect e s) = options s"
  "defCurrentViewId (log_effect e s) = defCurrentViewId s"
  "defTabConfigs (log_effect e s) = defTabConfigs s"
  "views (log_effect e s) = views s"
  "tabs (log_effect e s) = tabs s"
  "ipc (log_effect e s) = ipc s"
  "controlView (log_effect e s) = controlView s"
  "effects (log_effect e s) = effects s @ [e]"
  by (simp_all add: log_effect_def)

lemma currentView_log_effect [simp]: "currentView (log_effect e s) = currentView s"
  by (simp add: currentView_def split: option.split)

lemma setContentBounds_fields [simp]:
  "options (setContentBounds s) = options s"
  "defCurrentViewId (setContentBounds s) = defCurrentViewId s"
  "defTabConfigs (setContentBounds s) = defTabConfigs s"
  "views (setContentBounds s) = views s"
  "tabs (setContentBounds s) = tabs s"
  "ipc (setContentBounds s) = ipc s"
  "controlView (setContentBounds s) = controlView s"
  by (simp_all add: setContentBounds_def)

lemma set_currentViewId_fields [simp]:
  "options (set_currentViewId i s) = options s"
  "defCurrentViewId (set_currentViewId i s) = i"
  "defTabConfigs (set_currentViewId i s) = defTabConfigs s"
  "views (set_currentViewId i s) = views s"
  "tabs (set_currentViewId i s) = tabs s"
  "ipc (set_currentViewId i s) = ipc s"
  "controlView (set_currentViewId i s) = controlView s"
  by (simp_all add: set_currentViewId_def Let_def split: option.split)

lemma set_tabConfigs_fields [simp]:
  "options (set_tabConfigs v s) = options s"
  "defCurrentViewId (set_tabConfigs v s) = defCurrentViewId s"
  "defTabConfigs (set_tabConfigs v s) = v"
  "views (set_tabConfigs v s) = views s"
  "tabs (set_tabConfigs v s) = tabs s"
  "ipc (set_tabConfigs v s) = ipc s"
  "controlView (set_tabConfigs v s) = controlView s"
  by (simp_all add: set_tabConfigs_def Let_def split: option.split)

lemma setTabConfig_fields [simp]:
  "options (setTabConfig i kv s) = options s"
  "defCurrentViewId (setTabConfig i kv s) = defCurrentViewId s"
  "views (setTabConfig i kv s) = views s"
  "tabs (setTabConfig i kv s) = tabs s"
  "ipc (setTabConfig i kv s) = ipc s"
  "controlView (setTabConfig i kv s) = controlView s"
  by (simp_all add: setTabConfig_def Let_def)

lemma loadURL_fields [simp]:
  "options (loadURL u s) = options s"
  "defCurrentViewId (loadURL u s) = defCurrentViewId s"
  "defTabConfigs (loadURL u s) = defTabConfigs s"
  "tabs (loadURL u s) = tabs s"
  "ipc (loadURL u s) = ipc s"
  "controlView (loadURL u s) = controlView s"
  by (simp_all add: loadURL_def Let_def split: option.split prod.split)

lemma setCurrentView_fields [simp]:
  "options (setCurrentView v s) = options s"
  "defTabConfigs (setCurrentView v s) = defTabConfigs s"
  "views (setCurrentView v s) = views s"
  "tabs (setCurrentView v s) = tabs s"
  "ipc (setCurrentView v s) = ipc s"
  "controlView (setCurrentView v s) = controlView s"
  by (simp_all add: setCurrentView_def Let_def split: option.split prod.split)

lemma setCurrentView_current:
  "defCurrentViewId (setCurrentView v s) =
     (case v of None \<Rightarrow> defCurrentViewId s
      | Some i \<Rightarrow> if i = 0 then defCurrentViewId s else Some i)"
  by (simp add: setCurrentView_def Let_def split: option.split prod.split)

lemma destroyView_fields [simp]:
  "options (destroyView i s) = options s"
  "defCurrentViewId (destroyView i s) = defCurrentViewId s"
  "defTabConfigs (destroyView i s) = defTabConfigs s"
  "views (destroyView i s) = (views s)(i := None)"
  "tabs (destroyView i s) = tabs s"
  "ipc (destroyView i s) = ipc s"
  "controlView (destroyView i s) = controlView s"
  by (auto simp add: destroyView_def split: option.split)

lemma newTab_fields [simp]:
  "options (newTab u a vid s) = options s"
  "ipc (newTab u a vid s) = ipc s"
  "controlView (newTab u a vid s) = controlView s"
  by (simp_all add: newTab_def Let_def split: option.split)

lemma newTab_tabs:
  "tabs (newTab u a vid s) =
     (case a of None \<Rightarrow> tabs s @ [vid]
      | Some b \<Rightarrow> if b = 0 then tabs s @ [vid]
                  else splice_insert (tabs s) (indexOf (tabs s) b + 1) vid)"
  by (simp add: newTab_def Let_def split: option.split)

lemma newTab_current:
  "defCurrentViewId (newTab u a vid s) = (if vid = 0 then defCurrentViewId s else Some vid)"
  by (simp add: newTab_def Let_def setCurrentView_current split: option.split)

subsection \<open>Arrays\<close>

lemma indexOf_absent: "x \<notin> set xs \<Longrightarrow> indexOf xs x = - 1"
proof (induction xs)
  case Nil
  show ?case by simp
next
  case (Cons a xs)
  then have "a \<noteq> x" and "indexOf xs x = - 1" by auto
  then show ?case by (simp add: Let_def)
qed

lemma indexOf_prefix: "x \<notin> set pre \<Longrightarrow> indexOf (pre @ x # post) x = int (length pre)"
proof (induction pre)
  case Nil
  show ?case by simp
next
  case (Cons a pre)
  then have "a \<noteq> x" and "x \<notin> set pre" by auto
  with Cons.IH show ?case by (simp add: Let_def)
qed

lemma splice_insert_after:
  "splice_insert (pre @ x # post) (int (length pre) + 1) v = pre @ x # v # post"
  by (simp add: splice_insert_def Let_def nat_add_distrib)

lemma splice_insert_front: "splice_insert xs 0 v = v # xs"
  by (simp add: splice_insert_def Let_def)

lemma splice_insert_split:
  "\<exists>ys zs. xs = ys @ zs \<and> splice_insert xs i v = ys @ v # zs"
proof -
  define n where "n = nat (if i < 0 then max (int (length xs) + i) 0 else min i (int (length xs)))"
  have "xs = take n xs @ drop n xs" by simp
  moreover have "splice_insert xs i v = take n xs @ v # drop n xs"
    by (simp add: splice_insert_def Let_def n_def)
  ultimately show ?thesis by blast
qed

lemma set_splice_insert [simp]: "set (splice_insert xs i v) = insert v (set xs)"
proof -
  from splice_insert_split [of xs i v]
  obtain ys zs where "xs = ys @ zs" "splice_insert xs i v = ys @ v # zs" by blast
  then show ?thesis by simp
qed

lemma distinct_splice_insert [simp]:
  "distinct (splice_insert xs i v) = (distinct xs \<and> v \<notin> set xs)"
proof -
  from splice_insert_split [of xs i v]
  obtain ys zs where "xs = ys @ zs" "splice_insert xs i v = ys @ v # zs" by blast
  then show ?thesis by auto
qed

subsection \<open>Creating a tab\<close>

lemma newTab_order_ok:
  assumes "order_ok s" and "vid \<noteq> 0" and "vid \<notin> set (tabs s)"
  shows "order_ok (newTab u a vid s)"
proof -
  have t: "set (tabs (newTab u a vid s)) = insert vid (set (tabs s))"
    by (simp add: newTab_tabs split: option.split)
  have d: "distinct (tabs (newTab u a vid s))"
    using assms by (simp add: newTab_tabs order_ok_def split: option.split)
  have c: "defCurrentViewId (newTab u a vid s) = Some vid"
    using assms by (simp add: newTab_current)
  from t d c assms show ?thesis
    by (simp add: order_ok_def active_ok_def)
qed

subsection \<open>Closing a tab\<close>

lemma successor_next: "i \<notin> set pre \<Longrightarrow> successor (pre @ i # n # post) i = Some n"
  by (simp add: successor_def indexOf_prefix js_nth_def Let_def nat_add_distrib nth_append)

lemma successor_wrap: "i \<notin> set pre \<Longrightarrow> successor (pre @ [i]) i = Some (hd (pre @ [i]))"
  by (simp add: successor_def indexOf_prefix js_nth_def Let_def hd_conv_nth)

lemma close_tab_tabs:
  "tabs (close_tab i vid s) =
     (if filter (\<lambda>v. v \<noteq> i) (tabs s) = [] then [vid] else filter (\<lambda>v. v \<noteq> i) (tabs s))"
  by (simp add: close_tab_def Let_def newTab_tabs)

lemma close_tab_current:
  "defCurrentViewId (close_tab i vid s) =
     (let c1 = (if Some i = defCurrentViewId s
                then (case successor (tabs s) i of
                        None \<Rightarrow> defCurrentViewId s
                      | Some v \<Rightarrow> if v = 0 then defCurrentViewId s else Some v)
                else defCurrentViewId s)
      in if filter (\<lambda>v. v \<noteq> i) (tabs s) = []
         then (if vid = 0 then c1 else Some vid) else c1)"
  by (simp add: close_tab_def Let_def newTab_current setCurrentView_current successor_def)

lemma filter_out_distinct:
  "distinct (pre @ i # post) \<Longrightarrow> filter (\<lambda>v. v \<noteq> i) (pre @ i # post) = pre @ post"
proof -
  assume "distinct (pre @ i # post)"
  then have "i \<notin> set pre" and "i \<notin> set post" by auto
  then have "filter (\<lambda>v. v \<noteq> i) pre = pre" and "filter (\<lambda>v. v \<noteq> i) post = post"
    by (auto simp: filter_id_conv)
  then show ?thesis by simp
qed

lemma close_tab_order_ok:
  assumes ok: "order_ok s" and vid: "vid \<noteq> 0"
  shows "order_ok (close_tab i vid s)"
proof -
  let ?rest = "filter (\<lambda>v. v \<noteq> i) (tabs s)"
  from ok have dist: "distinct (tabs s)" and nz: "0 \<notin> set (tabs s)" and act: "active_ok s"
    by (simp_all add: order_ok_def)
  show ?thesis
  proof (cases "?rest = []")
    case True
    then show ?thesis using vid
      by (simp add: order_ok_def active_ok_def close_tab_tabs close_tab_current Let_def)
  next
    case False
    have t: "tabs (close_tab i vid s) = ?rest"
      using False by (simp add: close_tab_tabs)
    have d: "distinct ?rest" "0 \<notin> set ?rest" using dist nz by auto
    have "\<exists>c. defCurrentViewId (close_tab i vid s) = Some c \<and> c \<in> set ?rest"
    proof (cases "Some i = defCurrentViewId s")
      case active: True
      with act have "i \<in> set (tabs s)" by (simp add: active_ok_def split: option.splits)
      from split_list_first [OF this] obtain pre post
        where xs: "tabs s = pre @ i # post" and pre: "i \<notin> set pre" by blast
      have rest: "?rest = pre @ post"
        using dist unfolding xs by (rule filter_out_distinct)
      show ?thesis
      proof (cases post)
        case Nil
        with rest False obtain p pre' where p: "pre = p # pre'" by (cases pre) auto
        have "successor (tabs s) i = Some p"
          using successor_wrap [OF pre] by (simp add: xs Nil p)
        moreover have "p \<noteq> 0" using nz by (auto simp: xs p)
        ultimately have "defCurrentViewId (close_tab i vid s) = Some p"
          using False active [symmetric] by (simp add: close_tab_current Let_def)
        then show ?thesis by (simp add: rest p)
      next
        case (Cons n post')
        have "successor (tabs s) i = Some n"
          using successor_next [OF pre] by (simp add: xs Cons)
        moreover have "n \<noteq> 0" using nz by (auto simp: xs Cons)
        ultimately have "defCurrentViewId (close_tab i vid s) = Some n"
          using False active [symmetric] by (simp add: close_tab_current Let_def)
        then show ?thesis by (simp add: rest Cons)
      qed
    next
      case inactive: False
      then have c: "defCurrentViewId (close_tab i vid s) = defCurrentViewId s"
        using False by (simp add: close_tab_current Let_def)
      show ?thesis
      proof (cases "defCurrentViewId s")
        case None
        with act have "tabs s = []" by (simp add: active_ok_def)
        with False show ?thesis by simp
      next
        case (Some c')
        with act have "c' \<in> set (tabs s)" by (simp add: active_ok_def)
        moreover from Some inactive have "c' \<noteq> i" by auto
        ultimately show ?thesis using c Some by simp
      qed
    qed
    with t d show ?thesis by (auto simp: order_ok_def active_ok_def)
  qed
qed

lemma apply_op_order_ok:
  "order_ok s \<Longrightarrow> new_id p \<noteq> 0 \<Longrightarrow> new_id p \<notin> set (tabs s) \<Longrightarrow> order_ok (apply_op p s)"
  by (cases p) (simp_all add: newTab_order_ok close_tab_order_ok)

lemma run_ops_order_ok:
  "order_ok s \<Longrightarrow> ids_fresh ps s \<Longrightarrow> order_ok (run_ops ps s)"
  by (induction ps arbitrary: s) (simp_all add: apply_op_order_ok)

lemma ids_fresh_take: "ids_fresh ps s \<Longrightarrow> ids_fresh (take k ps) s"
proof (induction ps arbitrary: s k)
  case Nil
  show ?case by simp
next
  case (Cons p ps)
  then show ?case by (cases k) simp_all
qed

lemma init_order_ok: "order_ok (init opts)"
  by (simp add: order_ok_def active_ok_def init_def)

text \<open>
  Claim C1. Start from the state the constructor leaves and create and close tabs in any
  order, the runtime giving every new view an identifier that is not zero and not that of
  a tab: after each operation the active pointer is absent and the tab order empty, or
  the pointer is one of the tabs of the order.
\<close>

theorem active_pointer_invariant:
  assumes "ids_fresh ps (init opts)"
  shows "active_ok (run_ops (take k ps) (init opts))"
proof -
  have "order_ok (run_ops (take k ps) (init opts))"
    using init_order_ok ids_fresh_take [OF assms] by (rule run_ops_order_ok)
  then show ?thesis by (simp add: order_ok_def)
qed

theorem active_pointer_invariant_witness:
  "ids_fresh [Create None None 1, Create (Some ''https://a.test/'') (Some 1) 2, Close 2 3, Close 1 3]
     (init plain_options)
   \<and> active_ok
       (run_ops
          (take 4 [Create None None 1, Create (Some ''https://a.test/'') (Some 1) 2, Close 2 3,
                   Close 1 3])
          (init plain_options))"
proof -
  have t0: "tabs (init plain_options) = []" by (simp add: init_def)
  have h: "ids_fresh [Create None None 1, Create (Some ''https://a.test/'') (Some 1) 2, Close 2 3,
      Close 1 3] (init plain_options)"
    by (simp add: newTab_tabs close_tab_tabs t0 splice_insert_def Let_def)
  from h active_pointer_invariant [OF h, of 4] show ?thesis by simp
qed

subsection \<open>The view and the record of a new tab\<close>

lemma currentView_fresh:
  "vid \<noteq> 0 \<Longrightarrow> defCurrentViewId s = Some vid \<Longrightarrow> views s vid = Some v
     \<Longrightarrow> currentView s = Some (vid, v)"
  by (simp add: currentView_def)

lemma loadURL_new_view:
  assumes "currentView s = Some (i, new_BrowserView)" and "u \<noteq> []"
  shows "views (loadURL u s) =
     (views s)(i := Some (new_BrowserView
        \<lparr>wc_handler := Some (if custom_onNewWindow (options s) then Custom_handler
                              else Default_handler i),
         wc_handler_sets := 1, wc_listener_sets := 1, wc_loads := [u],
         wc_initialized := True\<rparr>))"
  using assms by (simp add: loadURL_def Let_def new_BrowserView_def)

lemma newTab_views:
  assumes "vid \<noteq> 0"
  shows "views (newTab u a vid s) =
     (views s)(vid := Some
        (case u of
           None \<Rightarrow> new_BrowserView
         | Some p \<Rightarrow>
             if p = [] then new_BrowserView
             else new_BrowserView
               \<lparr>wc_handler := Some (if custom_onNewWindow (options s) then Custom_handler
                                     else Default_handler vid),
                wc_handler_sets := 1, wc_listener_sets := 1, wc_loads := [p],
                wc_initialized := True\<rparr>))"
proof -
  let ?s1 = "s\<lparr>tabs := (case a of
                     None \<Rightarrow> tabs s @ [vid]
                   | Some b \<Rightarrow>
                       if b = 0 then tabs s @ [vid]
                       else splice_insert (tabs s) (indexOf (tabs s) b + 1) vid),
               views := (views s)(vid := Some new_BrowserView)\<rparr>"
  let ?s2 = "setCurrentView (Some vid) ?s1"
  have cv: "currentView ?s2 = Some (vid, new_BrowserView)"
    using assms by (intro currentView_fresh) (simp_all add: setCurrentView_current)
  have v2: "views ?s2 = (views s)(vid := Some new_BrowserView)" by simp
  have o2: "options ?s2 = options s" by simp
  show ?thesis
  proof (cases u)
    case None
    then show ?thesis by (simp add: newTab_def Let_def)
  next
    case (Some p)
    show ?thesis
    proof (cases "p = []")
      case True
      with Some show ?thesis by (simp add: newTab_def Let_def)
    next
      case False
      have "views (loadURL p ?s2) = (views ?s2)(vid := Some (new_BrowserView
        \<lparr>wc_handler := Some (if custom_onNewWindow (options ?s2) then Custom_handler
                              else Default_handler vid),
         wc_handler_sets := 1, wc_listener_sets := 1, wc_loads := [p],
         wc_initialized := True\<rparr>))"
        using cv False by (rule loadURL_new_view)
      with Some False show ?thesis
        unfolding v2 o2 by (simp add: newTab_def Let_def)
    qed
  qed
qed

lemma setTabConfig_title:
  "map_option title (defTabConfigs (setTabConfig i (no_keys\<lparr>p_title := Some t\<rparr>) s) i) = Some t"
  by (simp add: setTabConfig_def Let_def spread_def no_keys_def)

lemma setTabConfig_other:
  "k \<noteq> i \<Longrightarrow> defTabConfigs (setTabConfig i kv s) k = defTabConfigs s k"
  by (simp add: setTabConfig_def Let_def)

lemma newTab_title:
  "map_option title (defTabConfigs (newTab u a vid s) vid) = Some (Some (blank_title (options s)))"
proof -
  have "blank_title (options s) =
      (case blankTitle (options s) of None \<Rightarrow> ''about:blank''
       | Some b \<Rightarrow> if b = [] then ''about:blank'' else b)"
    by (simp add: blank_title_def)
  then show ?thesis
    by (simp add: newTab_def Let_def setTabConfig_title split: option.split)
qed

lemma newTab_other_records:
  "k \<noteq> vid \<Longrightarrow> defTabConfigs (newTab u a vid s) k = defTabConfigs s k"
  by (simp add: newTab_def Let_def setTabConfig_other split: option.split)

lemma close_tab_last_tab:
  assumes "tabs s = [i]"
  shows "close_tab i vid s =
     newTab (blankPage (options s)) None vid
       (destroyView i
          (set_tabConfigs ((defTabConfigs s)(i := None))
             ((if Some i = defCurrentViewId s then setCurrentView (successor [i] i) s else s)
                \<lparr>tabs := []\<rparr>)))"
  using assms by (simp add: close_tab_def Let_def successor_def)

lemma close_tab_records:
  "vid \<noteq> i \<Longrightarrow> defTabConfigs (close_tab i vid s) i = None"
  by (simp add: close_tab_def Let_def newTab_other_records)

lemma close_tab_next:
  assumes dist: "distinct (tabs s)" and nz: "0 \<notin> set (tabs s)"
    and cur: "defCurrentViewId s = Some i" and xs: "tabs s = pre @ i # n # post"
  shows "defCurrentViewId (close_tab i vid s) = Some n"
proof -
  from dist nz xs have pre: "i \<notin> set pre" and n0: "n \<noteq> 0" and ni: "n \<noteq> i"
    by auto
  have "successor (tabs s) i = Some n"
    unfolding xs using pre by (rule successor_next)
  moreover have "filter (\<lambda>v. v \<noteq> i) (tabs s) \<noteq> []"
    using ni by (simp add: xs)
  ultimately show ?thesis
    using cur n0 by (simp add: close_tab_current Let_def)
qed

lemma close_tab_wrap:
  assumes dist: "distinct (tabs s)" and nz: "0 \<notin> set (tabs s)"
    and cur: "defCurrentViewId s = Some i" and xs: "tabs s = p # pre @ [i]"
  shows "defCurrentViewId (close_tab i vid s) = Some p"
proof -
  from dist nz xs have pre: "i \<notin> set (p # pre)" and p0: "p \<noteq> 0" and ne: "p \<noteq> i"
    by auto
  have "successor ((p # pre) @ [i]) i = Some (hd ((p # pre) @ [i]))"
    using pre by (rule successor_wrap)
  then have "successor (tabs s) i = Some p" by (simp add: xs)
  moreover have "filter (\<lambda>v. v \<noteq> i) (tabs s) \<noteq> []"
    using ne by (simp add: xs)
  ultimately show ?thesis
    using cur p0 by (simp add: close_tab_current Let_def)
qed

lemma others_remain:
  assumes dist: "distinct xs" and i: "i \<in> set xs" and more: "xs \<noteq> [i]"
  shows "filter (\<lambda>v. v \<noteq> i) xs \<noteq> []"
proof -
  from split_list_first [OF i] obtain pre post
    where xs: "xs = pre @ i # post" and "i \<notin> set pre" by blast
  from dist have "filter (\<lambda>v. v \<noteq> i) (pre @ i # post) = pre @ post"
    unfolding xs by (rule filter_out_distinct)
  moreover from more xs have "pre @ post \<noteq> []" by auto
  ultimately show ?thesis by (simp add: xs)
qed

lemma close_tab_other:
  assumes cur: "defCurrentViewId s \<noteq> Some i" and rest: "filter (\<lambda>v. v \<noteq> i) (tabs s) \<noteq> []"
  shows "defCurrentViewId (close_tab i vid s) = defCurrentViewId s"
  using assms by (auto simp add: close_tab_current Let_def)

lemma close_tab_keeps_order:
  assumes "filter (\<lambda>v. v \<noteq> i) (tabs s) \<noteq> []"
  shows "tabs (close_tab i vid s) = filter (\<lambda>v. v \<noteq> i) (tabs s)"
  using assms by (simp add: close_tab_tabs)

lemma close_tab_only_tab:
  assumes xs: "tabs s = [i]" and vid: "vid \<noteq> 0"
  shows "tabs (close_tab i vid s) = [vid]"
    and "defCurrentViewId (close_tab i vid s) = Some vid"
    and "map_option title (defTabConfigs (close_tab i vid s) vid)
           = Some (Some (blank_title (options s)))"
    and "map_option wc_loads (views (close_tab i vid s) vid)
           = Some (case blankPage (options s) of
                     None \<Rightarrow> []
                   | Some b \<Rightarrow> if b = [] then [] else [b])"
proof -
  show "tabs (close_tab i vid s) = [vid]"
    by (simp add: close_tab_tabs xs)
  show "defCurrentViewId (close_tab i vid s) = Some vid"
    using vid by (simp add: close_tab_last_tab [OF xs] newTab_current)
  show "map_option title (defTabConfigs (close_tab i vid s) vid)
           = Some (Some (blank_title (options s)))"
    by (simp add: close_tab_last_tab [OF xs] newTab_title)
  show "map_option wc_loads (views (close_tab i vid s) vid)
           = Some (case blankPage (options s) of
                     None \<Rightarrow> []
                   | Some b \<Rightarrow> if b = [] then [] else [b])"
    using vid
    by (simp add: close_tab_last_tab [OF xs] newTab_views new_BrowserView_def split: option.split)
qed

lemma switchTab_fields [simp]:
  "options (switchTab i s) = options s"
  "defTabConfigs (switchTab i s) = defTabConfigs s"
  "views (switchTab i s) = views s"
  "tabs (switchTab i s) = tabs s"
  "ipc (switchTab i s) = ipc s"
  "controlView (switchTab i s) = controlView s"
  by (simp_all add: switchTab_def Let_def split: option.split prod.split)

lemma switchTab_current:
  "defCurrentViewId (switchTab i s) = (if i = 0 then defCurrentViewId s else Some i)"
  by (simp add: switchTab_def Let_def setCurrentView_current split: option.split prod.split)

lemma control_ready_fields [simp]:
  "options (control_ready e vid s) = options s"
  "ipc (control_ready e vid s) = Some e"
  "controlView (control_ready e vid s) = controlView s"
  "tabs (control_ready e vid s) = tabs s @ [vid]"
  by (simp_all add: control_ready_def Let_def newTab_tabs)

lemma control_ready_current:
  "defCurrentViewId (control_ready e vid s) = (if vid = 0 then defCurrentViewId s else Some vid)"
  by (simp add: control_ready_def Let_def newTab_current)

lemma three_tabs_order: "tabs three_tabs = [1, 2, 3]"
  by (simp add: three_tabs_def newTab_tabs init_def)

lemma three_tabs_active: "defCurrentViewId three_tabs = Some 2"
  by (simp add: three_tabs_def switchTab_current)

lemma stray_pointer_state:
  "tabs stray_pointer = [1]" "defCurrentViewId stray_pointer = Some 99"
  by (simp_all add: stray_pointer_def switchTab_current init_def)

text \<open>
  Claim C2, as stated, fails in a state whose active pointer is outside the order, which
  \<open>switch-tab\<close> with an unknown identifier reaches: closing the only tab, which is not the
  active one, does not leave the pointer untouched; the order empties, and the blank tab
  that is created becomes active.
\<close>

theorem close_tab_moves_stray_pointer:
  "tabs stray_pointer = [1] \<and> defCurrentViewId stray_pointer = Some 99
   \<and> defCurrentViewId (close_tab 1 2 stray_pointer) = Some 2"
  by (simp add: stray_pointer_state close_tab_current Let_def)

text \<open>
  Claim C2, amended. In a state whose tab order has no repetition and no zero (every
  execution keeps the order so, as \<open>reachable_tabs_ok\<close> below shows), closing a
  tab \<open>i\<close> of the order, the runtime giving the view of a blank tab an identifier \<open>vid\<close> that
  is not zero and not in the order, does this. When \<open>i\<close> is the active tab and another tab
  follows it, that tab becomes active; when \<open>i\<close> is active and last, the first tab becomes
  active. When \<open>i\<close> is not active, the pointer stays as it is whenever another tab remains
  in the order, and so whenever the pointer is one of the tabs. The tab \<open>i\<close> leaves the
  order, the other tabs keep their order, and the record of \<open>i\<close> is removed. When \<open>i\<close> was
  the only tab, the order afterwards is the one new tab \<open>vid\<close>, which is active (also when
  \<open>i\<close> was not), has the blank title and has loaded the blank page if one is configured.
\<close>

theorem close_tab_reassigns:
  assumes "distinct (tabs s)" and "0 \<notin> set (tabs s)" and "i \<in> set (tabs s)"
    and "vid \<noteq> 0" and "vid \<notin> set (tabs s)"
  shows "(\<forall>pre n post. defCurrentViewId s = Some i \<and> tabs s = pre @ i # n # post
            \<longrightarrow> defCurrentViewId (close_tab i vid s) = Some n)
    \<and> (\<forall>p pre. defCurrentViewId s = Some i \<and> tabs s = p # pre @ [i]
            \<longrightarrow> defCurrentViewId (close_tab i vid s) = Some p)
    \<and> (defCurrentViewId s \<noteq> Some i \<and> tabs s \<noteq> [i]
            \<longrightarrow> defCurrentViewId (close_tab i vid s) = defCurrentViewId s)
    \<and> (\<forall>c. defCurrentViewId s = Some c \<and> c \<in> set (tabs s) \<and> c \<noteq> i
            \<longrightarrow> defCurrentViewId (close_tab i vid s) = Some c)
    \<and> i \<notin> set (tabs (close_tab i vid s))
    \<and> defTabConfigs (close_tab i vid s) i = None
    \<and> (tabs s \<noteq> [i] \<longrightarrow> tabs (close_tab i vid s) = filter (\<lambda>v. v \<noteq> i) (tabs s))
    \<and> (tabs s = [i]
          \<longrightarrow> tabs (close_tab i vid s) = [vid]
            \<and> defCurrentViewId (close_tab i vid s) = Some vid
            \<and> map_option title (defTabConfigs (close_tab i vid s) vid)
                = Some (Some (blank_title (options s)))
            \<and> map_option wc_loads (views (close_tab i vid s) vid)
                = Some (case blankPage (options s) of
                          None \<Rightarrow> []
                        | Some b \<Rightarrow> if b = [] then [] else [b]))"
proof -
  from assms have ne: "vid \<noteq> i" by auto
  have a: "\<forall>pre n post. defCurrentViewId s = Some i \<and> tabs s = pre @ i # n # post
            \<longrightarrow> defCurrentViewId (close_tab i vid s) = Some n"
    using close_tab_next [OF assms(1,2)] by blast
  have b: "\<forall>p pre. defCurrentViewId s = Some i \<and> tabs s = p # pre @ [i]
            \<longrightarrow> defCurrentViewId (close_tab i vid s) = Some p"
    using close_tab_wrap [OF assms(1,2)] by blast
  have c: "defCurrentViewId s \<noteq> Some i \<and> tabs s \<noteq> [i]
            \<longrightarrow> defCurrentViewId (close_tab i vid s) = defCurrentViewId s"
    using close_tab_other others_remain [OF assms(1,3)] by blast
  have c': "\<forall>c. defCurrentViewId s = Some c \<and> c \<in> set (tabs s) \<and> c \<noteq> i
            \<longrightarrow> defCurrentViewId (close_tab i vid s) = Some c"
  proof (intro allI impI)
    fix c
    assume h: "defCurrentViewId s = Some c \<and> c \<in> set (tabs s) \<and> c \<noteq> i"
    then have "filter (\<lambda>v. v \<noteq> i) (tabs s) \<noteq> []"
      by (auto simp: filter_empty_conv)
    moreover from h have "defCurrentViewId s \<noteq> Some i" by auto
    ultimately have "defCurrentViewId (close_tab i vid s) = defCurrentViewId s"
      by (rule close_tab_other [rotated])
    with h show "defCurrentViewId (close_tab i vid s) = Some c" by simp
  qed
  have d: "i \<notin> set (tabs (close_tab i vid s))"
    using ne by (simp add: close_tab_tabs)
  have e: "defTabConfigs (close_tab i vid s) i = None"
    using ne by (rule close_tab_records)
  have f: "tabs s \<noteq> [i] \<longrightarrow> tabs (close_tab i vid s) = filter (\<lambda>v. v \<noteq> i) (tabs s)"
    using close_tab_keeps_order others_remain [OF assms(1,3)] by blast
  have g: "tabs s = [i]
          \<longrightarrow> tabs (close_tab i vid s) = [vid]
            \<and> defCurrentViewId (close_tab i vid s) = Some vid
            \<and> map_option title (defTabConfigs (close_tab i vid s) vid)
                = Some (Some (blank_title (options s)))
            \<and> map_option wc_loads (views (close_tab i vid s) vid)
                = Some (case blankPage (options s) of
                          None \<Rightarrow> []
                        | Some b \<Rightarrow> if b = [] then [] else [b])"
    using close_tab_only_tab [OF _ assms(4)] by blast
  from a b c c' d e f g show ?thesis by (intro conjI)
qed

theorem close_tab_reassigns_witness:
  "distinct (tabs three_tabs) \<and> 0 \<notin> set (tabs three_tabs) \<and> 2 \<in> set (tabs three_tabs)
   \<and> (4::int) \<noteq> 0 \<and> 4 \<notin> set (tabs three_tabs)
   \<and> tabs three_tabs = [1, 2, 3] \<and> defCurrentViewId three_tabs = Some 2
   \<and> defCurrentViewId (close_tab 2 4 three_tabs) = Some 3
   \<and> tabs (close_tab 2 4 three_tabs) = [1, 3]
   \<and> defTabConfigs (close_tab 2 4 three_tabs) 2 = None"
proof -
  have h: "distinct (tabs three_tabs)" "0 \<notin> set (tabs three_tabs)" "2 \<in> set (tabs three_tabs)"
    "(4::int) \<noteq> 0" "4 \<notin> set (tabs three_tabs)"
    by (simp_all add: three_tabs_order)
  have x: "tabs three_tabs = [1] @ 2 # 3 # []" by (simp add: three_tabs_order)
  from close_tab_reassigns [OF h] three_tabs_active x
  have "defCurrentViewId (close_tab 2 4 three_tabs) = Some 3"
    and "tabs (close_tab 2 4 three_tabs) = filter (\<lambda>v. v \<noteq> 2) (tabs three_tabs)"
    and "defTabConfigs (close_tab 2 4 three_tabs) 2 = None"
    by (blast, simp add: three_tabs_order, blast)
  with h three_tabs_active show ?thesis by (simp add: three_tabs_order)
qed

text \<open>
  Claim C10. When \<open>newTab\<close> is given an \<open>appendTo\<close> identifier that is truthy and is not in
  the tab order, the new identifier is put in front of the order: not at its end, and
  after no tab.
\<close>

theorem newTab_appendTo_absent:
  assumes "a \<noteq> 0" and "a \<notin> set (tabs s)"
  shows "tabs (newTab u (Some a) vid s) = vid # tabs s"
  using assms by (simp add: newTab_tabs indexOf_absent splice_insert_front)

theorem newTab_appendTo_absent_witness:
  "(7::int) \<noteq> 0 \<and> 7 \<notin> set (tabs three_tabs)
   \<and> tabs (newTab None (Some 7) 4 three_tabs) = [4, 1, 2, 3]"
proof -
  have h: "(7::int) \<noteq> 0" "7 \<notin> set (tabs three_tabs)"
    by (simp_all add: three_tabs_order)
  from h newTab_appendTo_absent [OF h, of None 4] show ?thesis
    by (simp add: three_tabs_order)
qed

subsection \<open>The window-open handler\<close>

lemma URL_host_web: "URL_host ''https://a.test/x'' = Some ''a.test''"
  by code_simp

lemma URL_host_blank: "URL_host ''about:blank'' = Some []"
  by code_simp

lemma URL_host_unparseable: "URL_host ''not a url'' = None"
  by code_simp

lemma newTab_after:
  assumes "i \<noteq> 0" and "i \<notin> set pre" and "tabs s = pre @ i # post"
  shows "tabs (newTab u (Some i) vid s) = pre @ i # vid # post"
  using assms by (simp add: newTab_tabs indexOf_prefix splice_insert_after)

lemma newTab_loads:
  assumes "vid \<noteq> 0" and "p \<noteq> []"
  shows "map_option wc_loads (views (newTab (Some p) a vid s) vid) = Some [p]"
  using assms by (simp add: newTab_views new_BrowserView_def)

lemma URL_host_relative: "URL_host ''a.test/x'' = None"
  by code_simp

text \<open>
  Claim C3, as stated, fails: a request with the disposition \<open>new-window\<close> whose target
  the URL constructor rejects is neither allowed nor denied; the handler leaves with the
  constructor's \<open>TypeError\<close> before it looks at the disposition.
\<close>

theorem onNewWindow_no_decision:
  "onNewWindow URL_host 1
     \<lparr>d_url = ''a.test/x'', d_frameName = [], d_disposition = New_window\<rparr> 4 three_tabs
   = Inl TypeError"
  by (simp add: onNewWindow_def URL_host_relative)

text \<open>
  Claim C3, amended. On every request whose target the URL constructor accepts, the
  default handler answers as follows. With an empty host it denies and changes nothing. With a host and the
  disposition \<open>new-window\<close> it allows and changes nothing. With a host and any other
  disposition it denies, and before it returns it has created a tab with \<open>newTab\<close>: the
  new identifier stands in the order right after the tab the handler was installed for,
  the new tab is active and its session has loaded the target.
\<close>

theorem onNewWindow_decides:
  assumes "hostOf (d_url d) = Some h"
  shows "(h = [] \<longrightarrow> onNewWindow hostOf i d vid s = Inr (Deny, s))
    \<and> (h \<noteq> [] \<and> d_disposition d = New_window
          \<longrightarrow> onNewWindow hostOf i d vid s = Inr (Allow, s))
    \<and> (h \<noteq> [] \<and> d_disposition d \<noteq> New_window
          \<longrightarrow> onNewWindow hostOf i d vid s
                = Inr (Deny, newTab (Some (d_url d)) (Some i) vid s)
            \<and> (\<forall>pre post. i \<noteq> 0 \<and> i \<notin> set pre \<and> tabs s = pre @ i # post
                  \<longrightarrow> tabs (newTab (Some (d_url d)) (Some i) vid s) = pre @ i # vid # post)
            \<and> (vid \<noteq> 0 \<and> d_url d \<noteq> []
                  \<longrightarrow> defCurrentViewId (newTab (Some (d_url d)) (Some i) vid s) = Some vid
                    \<and> map_option wc_loads (views (newTab (Some (d_url d)) (Some i) vid s) vid)
                        = Some [d_url d]))"
proof -
  have a: "h = [] \<longrightarrow> onNewWindow hostOf i d vid s = Inr (Deny, s)"
    using assms by (simp add: onNewWindow_def)
  have b: "h \<noteq> [] \<and> d_disposition d = New_window
          \<longrightarrow> onNewWindow hostOf i d vid s = Inr (Allow, s)"
    using assms by (simp add: onNewWindow_def)
  have c: "h \<noteq> [] \<and> d_disposition d \<noteq> New_window
          \<longrightarrow> onNewWindow hostOf i d vid s
                = Inr (Deny, newTab (Some (d_url d)) (Some i) vid s)"
    using assms by (simp add: onNewWindow_def)
  have e: "\<forall>pre post. i \<noteq> 0 \<and> i \<notin> set pre \<and> tabs s = pre @ i # post
                  \<longrightarrow> tabs (newTab (Some (d_url d)) (Some i) vid s) = pre @ i # vid # post"
    using newTab_after by blast
  have f: "vid \<noteq> 0 \<and> d_url d \<noteq> []
                  \<longrightarrow> defCurrentViewId (newTab (Some (d_url d)) (Some i) vid s) = Some vid
                    \<and> map_option wc_loads (views (newTab (Some (d_url d)) (Some i) vid s) vid)
                        = Some [d_url d]"
    using newTab_loads by (simp add: newTab_current)
  from a b c e f show ?thesis by blast
qed

theorem onNewWindow_decides_witness:
  "URL_host ''about:blank'' = Some []
   \<and> onNewWindow URL_host 1
        \<lparr>d_url = ''about:blank'', d_frameName = [], d_disposition = Foreground_tab\<rparr> 4 three_tabs
       = Inr (Deny, three_tabs)
   \<and> URL_host ''https://a.test/x'' = Some ''a.test''
   \<and> onNewWindow URL_host 1
        \<lparr>d_url = ''https://a.test/x'', d_frameName = [], d_disposition = New_window\<rparr> 4 three_tabs
       = Inr (Allow, three_tabs)
   \<and> map_sum id fst (onNewWindow URL_host 1
        \<lparr>d_url = ''https://a.test/x'', d_frameName = [], d_disposition = Foreground_tab\<rparr> 4
        three_tabs) = Inr Deny
   \<and> tabs (newTab (Some ''https://a.test/x'') (Some 1) 4 three_tabs) = [1, 4, 2, 3]
   \<and> map_option wc_loads (views (newTab (Some ''https://a.test/x'') (Some 1) 4 three_tabs) 4)
       = Some [''https://a.test/x'']"
proof -
  let ?blank = "\<lparr>d_url = ''about:blank'', d_frameName = [], d_disposition = Foreground_tab\<rparr>"
  let ?win = "\<lparr>d_url = ''https://a.test/x'', d_frameName = [], d_disposition = New_window\<rparr>"
  let ?tab = "\<lparr>d_url = ''https://a.test/x'', d_frameName = [], d_disposition = Foreground_tab\<rparr>"
  have hb: "URL_host (d_url ?blank) = Some []" by (simp add: URL_host_blank)
  have hw: "URL_host (d_url ?win) = Some ''a.test''" by (simp add: URL_host_web)
  have ht: "URL_host (d_url ?tab) = Some ''a.test''" by (simp add: URL_host_web)
  have x: "tabs three_tabs = [] @ 1 # [2, 3]" by (simp add: three_tabs_order)
  from onNewWindow_decides [where hostOf = URL_host and d = "?blank" and i = 1 and vid = 4
      and s = three_tabs, OF hb]
  have 1: "onNewWindow URL_host 1 ?blank 4 three_tabs = Inr (Deny, three_tabs)" by simp
  from onNewWindow_decides [where hostOf = URL_host and d = "?win" and i = 1 and vid = 4
      and s = three_tabs, OF hw]
  have 2: "onNewWindow URL_host 1 ?win 4 three_tabs = Inr (Allow, three_tabs)" by simp
  note t = onNewWindow_decides [where hostOf = URL_host and d = "?tab" and i = 1 and vid = 4
      and s = three_tabs, OF ht]
  from t have 3: "onNewWindow URL_host 1 ?tab 4 three_tabs
        = Inr (Deny, newTab (Some ''https://a.test/x'') (Some 1) 4 three_tabs)"
    by simp
  from t have "\<forall>pre post. (1::int) \<noteq> 0 \<and> 1 \<notin> set pre \<and> tabs three_tabs = pre @ 1 # post
      \<longrightarrow> tabs (newTab (Some ''https://a.test/x'') (Some 1) 4 three_tabs) = pre @ 1 # 4 # post"
    by simp
  from this [rule_format, of "[]" "[2, 3]"] x
  have 4: "tabs (newTab (Some ''https://a.test/x'') (Some 1) 4 three_tabs) = [1, 4, 2, 3]"
    by simp
  from t have 5: "map_option wc_loads
        (views (newTab (Some ''https://a.test/x'') (Some 1) 4 three_tabs) 4)
       = Some [''https://a.test/x'']"
    by simp
  from 1 2 3 4 5 show ?thesis by (simp add: URL_host_blank URL_host_web)
qed

text \<open>
  Claim C4, as stated, fails: on a string the URL constructor rejects the handler does not
  answer deny, it leaves with the constructor's \<open>TypeError\<close>.
\<close>

theorem onNewWindow_unparseable:
  "onNewWindow URL_host 1
     \<lparr>d_url = ''not a url'', d_frameName = [], d_disposition = Foreground_tab\<rparr> 4 three_tabs
   = Inl TypeError"
  by (simp add: onNewWindow_def URL_host_unparseable)

text \<open>
  Claim C4, amended. The default handler returns an answer exactly when the URL constructor
  accepts the target: it raises the constructor's \<open>TypeError\<close> on a target the constructor
  rejects and raises nothing otherwise; and on an accepted target whose host is empty the
  answer is deny, with the state untouched.
\<close>

theorem onNewWindow_denies_hostless:
  "((\<exists>r. onNewWindow hostOf i d vid s = Inr r) = (hostOf (d_url d) \<noteq> None))
   \<and> (hostOf (d_url d) = None \<longrightarrow> onNewWindow hostOf i d vid s = Inl TypeError)
   \<and> (hostOf (d_url d) = Some [] \<longrightarrow> onNewWindow hostOf i d vid s = Inr (Deny, s))"
  by (simp add: onNewWindow_def split: option.split)

theorem onNewWindow_denies_hostless_witness:
  "URL_host ''about:blank'' = Some []
   \<and> onNewWindow URL_host 2
        \<lparr>d_url = ''about:blank'', d_frameName = [], d_disposition = Other\<rparr> 4 three_tabs
       = Inr (Deny, three_tabs)"
  using onNewWindow_denies_hostless [where hostOf = URL_host and i = 2 and vid = 4
      and s = three_tabs
      and d = "\<lparr>d_url = ''about:blank'', d_frameName = [], d_disposition = Other\<rparr>"]
  by (simp add: URL_host_blank)

subsection \<open>Merging into a record\<close>

lemma setTabConfig_record:
  "defTabConfigs (setTabConfig i kv s) i =
     Some (spread kv
       ((case defTabConfigs s i of None \<Rightarrow> no_fields | Some t \<Rightarrow> t)
          \<lparr>canGoBack := Some (session_canGoBack s i),
           canGoForward := Some (session_canGoForward s i)\<rparr>))"
  by (simp add: setTabConfig_def Let_def)

lemma session_changed_fields [simp]:
  "options (session_changed i b f a s) = options s"
  "defCurrentViewId (session_changed i b f a s) = defCurrentViewId s"
  "defTabConfigs (session_changed i b f a s) = defTabConfigs s"
  "tabs (session_changed i b f a s) = tabs s"
  "ipc (session_changed i b f a s) = ipc s"
  "controlView (session_changed i b f a s) = controlView s"
  by (simp_all add: session_changed_def split: option.split)

lemma three_tabs_view: "views three_tabs 2 = Some new_BrowserView"
  by (simp add: three_tabs_def newTab_views control_ready_def Let_def)

lemma loadURL_session [simp]:
  "session_canGoBack (loadURL u s) i = session_canGoBack s i"
  "session_canGoForward (loadURL u s) i = session_canGoForward s i"
  by (simp_all add: loadURL_def currentView_def Let_def session_canGoBack_def
      session_canGoForward_def split: option.split if_split)

lemma newTab_record:
  assumes "defTabConfigs s vid = None"
  shows "defTabConfigs (newTab u a vid s) vid =
     Some (no_fields\<lparr>canGoBack := Some False, canGoForward := Some False,
                      title := Some (blank_title (options s))\<rparr>)"
proof -
  let ?s1 = "s\<lparr>tabs := (case a of
                     None \<Rightarrow> tabs s @ [vid]
                   | Some b \<Rightarrow>
                       if b = 0 then tabs s @ [vid]
                       else splice_insert (tabs s) (indexOf (tabs s) b + 1) vid),
               views := (views s)(vid := Some new_BrowserView)\<rparr>"
  let ?s2 = "setCurrentView (Some vid) ?s1"
  have b: "session_canGoBack ?s2 vid = False" "session_canGoForward ?s2 vid = False"
    by (simp_all add: session_canGoBack_def session_canGoForward_def new_BrowserView_def)
  have t: "blank_title (options s) =
      (case blankTitle (options s) of None \<Rightarrow> ''about:blank''
       | Some b \<Rightarrow> if b = [] then ''about:blank'' else b)"
    by (simp add: blank_title_def)
  show ?thesis
    using assms b
    by (simp add: newTab_def Let_def setTabConfig_record t spread_def no_keys_def no_fields_def
        split: option.split)
qed

lemma three_tabs_record:
  "defTabConfigs three_tabs 2 =
     Some (no_fields\<lparr>canGoBack := Some False, canGoForward := Some False,
                      title := Some ''about:blank''\<rparr>)"
proof -
  let ?s = "control_ready 0 1 (init plain_options)"
  have "defTabConfigs ?s 2 = None"
    by (simp add: control_ready_def Let_def newTab_other_records init_def)
  from newTab_record [OF this, of None None]
  show ?thesis
    by (simp add: three_tabs_def newTab_other_records blank_title_def plain_options_def init_def)
qed

subsection \<open>Counting layouts and notifications\<close>

lemma count_layouts_append [simp]:
  "count_layouts (xs @ ys) = count_layouts xs + count_layouts ys"
  by (induction xs rule: count_layouts.induct) simp_all

lemma replied_append [simp]: "replied (xs @ ys) = replied xs @ replied ys"
  by (induction xs rule: replied.induct) simp_all

lemma log_effect_counts:
  "layouts (log_effect x s) = layouts s + count_layouts [x]"
  "notifications (log_effect x s) = notifications s @ replied [x]"
  by (simp_all add: layouts_def notifications_def)

lemma setContentBounds_counts [simp]:
  "layouts (setContentBounds s) = Suc (layouts s)"
  "notifications (setContentBounds s) = notifications s"
  by (simp_all add: setContentBounds_def log_effect_counts)

lemma field_update_counts [simp]:
  "layouts (s\<lparr>defCurrentViewId := c\<rparr>) = layouts s"
  "notifications (s\<lparr>defCurrentViewId := c\<rparr>) = notifications s"
  "layouts (s\<lparr>defTabConfigs := t\<rparr>) = layouts s"
  "notifications (s\<lparr>defTabConfigs := t\<rparr>) = notifications s"
  "layouts (s\<lparr>views := v\<rparr>) = layouts s"
  "notifications (s\<lparr>views := v\<rparr>) = notifications s"
  "layouts (s\<lparr>tabs := xs\<rparr>) = layouts s"
  "notifications (s\<lparr>tabs := xs\<rparr>) = notifications s"
  "layouts (s\<lparr>ipc := h\<rparr>) = layouts s"
  "notifications (s\<lparr>ipc := h\<rparr>) = notifications s"
  "layouts (s\<lparr>controlView := b\<rparr>) = layouts s"
  "notifications (s\<lparr>controlView := b\<rparr>) = notifications s"
  by (simp_all add: layouts_def notifications_def)

lemma set_currentViewId_counts:
  "layouts (set_currentViewId i s) = Suc (layouts s)"
  "notifications (set_currentViewId i s) =
     notifications s @ (case ipc s of None \<Rightarrow> [] | Some e \<Rightarrow> [Active_update i])"
  by (simp_all add: set_currentViewId_def Let_def log_effect_counts split: option.split)

lemma set_tabConfigs_counts:
  "layouts (set_tabConfigs v s) = layouts s"
  "notifications (set_tabConfigs v s) =
     notifications s @ (case ipc s of None \<Rightarrow> [] | Some e \<Rightarrow> [Tabs_update v (tabs s)])"
  by (simp_all add: set_tabConfigs_def Let_def log_effect_counts split: option.split)

lemma setTabConfig_counts:
  "layouts (setTabConfig i kv s) = layouts s"
  "notifications (setTabConfig i kv s) =
     notifications s @ (case ipc s of
                          None \<Rightarrow> []
                        | Some e \<Rightarrow> [Tabs_update (defTabConfigs (setTabConfig i kv s)) (tabs s)])"
  by (simp_all add: setTabConfig_def Let_def set_tabConfigs_counts split: option.split)

lemma loadURL_counts:
  "notifications (loadURL u s) = notifications s"
  "layouts (loadURL u s) =
     layouts s + (case currentView s of
                    None \<Rightarrow> 0
                  | Some (i, cv) \<Rightarrow> if u = [] \<or> wc_initialized cv then 0 else 1)"
  by (simp_all add: loadURL_def Let_def log_effect_counts split: option.split prod.split)

lemma setCurrentView_counts:
  "layouts (setCurrentView v s) =
     layouts s + (case v of None \<Rightarrow> 0 | Some i \<Rightarrow> if i = 0 then 0 else 1)"
  "notifications (setCurrentView v s) =
     notifications s @ (case v of
                          None \<Rightarrow> []
                        | Some i \<Rightarrow>
                            if i = 0 then []
                            else (case ipc s of None \<Rightarrow> [] | Some e \<Rightarrow> [Active_update (Some i)]))"
  by (auto simp add: setCurrentView_def Let_def set_currentViewId_counts log_effect_counts
      split: option.split prod.split)

lemma destroyView_counts [simp]:
  "layouts (destroyView i s) = layouts s"
  "notifications (destroyView i s) = notifications s"
  by (simp_all add: destroyView_def log_effect_counts split: option.split)

lemma switchTab_counts:
  "layouts (switchTab i s) = layouts s + (if i = 0 then 0 else 1)"
  "notifications (switchTab i s) =
     notifications s @ (if i = 0 then []
                        else (case ipc s of None \<Rightarrow> [] | Some e \<Rightarrow> [Active_update (Some i)]))"
  by (auto simp add: switchTab_def Let_def setCurrentView_counts log_effect_counts
      split: option.split prod.split)

lemma newTab_counts:
  assumes "vid \<noteq> 0"
  shows "layouts (newTab u a vid s) =
      layouts s + 1 + (case u of None \<Rightarrow> 0 | Some p \<Rightarrow> if p = [] then 0 else 1)"
    and "notifications (newTab u a vid s) =
      notifications s @
        (case ipc s of
           None \<Rightarrow> []
         | Some e \<Rightarrow> [Active_update (Some vid),
                      Tabs_update (defTabConfigs (newTab u a vid s)) (tabs (newTab u a vid s))])"
proof -
  let ?s1 = "s\<lparr>tabs := (case a of
                     None \<Rightarrow> tabs s @ [vid]
                   | Some b \<Rightarrow>
                       if b = 0 then tabs s @ [vid]
                       else splice_insert (tabs s) (indexOf (tabs s) b + 1) vid),
               views := (views s)(vid := Some new_BrowserView)\<rparr>"
  let ?s2 = "setCurrentView (Some vid) ?s1"
  have cv: "currentView ?s2 = Some (vid, new_BrowserView)"
    using assms by (intro currentView_fresh) (simp_all add: setCurrentView_current)
  have l2: "layouts ?s2 = layouts s + 1"
    using assms by (simp add: setCurrentView_counts)
  have n2: "notifications ?s2 =
      notifications s @ (case ipc s of None \<Rightarrow> [] | Some e \<Rightarrow> [Active_update (Some vid)])"
    using assms by (simp add: setCurrentView_counts)
  have ll: "layouts (loadURL p ?s2) = layouts ?s2 + (if p = [] then 0 else 1)" for p
  proof -
    have "\<not> wc_initialized new_BrowserView" by (simp add: new_BrowserView_def)
    then show ?thesis by (simp add: loadURL_counts cv)
  qed
  show "layouts (newTab u a vid s) =
      layouts s + 1 + (case u of None \<Rightarrow> 0 | Some p \<Rightarrow> if p = [] then 0 else 1)"
    by (simp add: newTab_def Let_def log_effect_counts setTabConfig_counts ll l2
        split: option.split)
  have t: "tabs (newTab u a vid s) = tabs ?s1"
    by (simp add: newTab_tabs)
  have c: "defTabConfigs (newTab u a vid s) =
      defTabConfigs (setTabConfig vid
         (no_keys\<lparr>p_title :=
            Some (Some (case blankTitle (options s) of
                          None \<Rightarrow> ''about:blank''
                        | Some b \<Rightarrow> if b = [] then ''about:blank'' else b))\<rparr>)
         (case u of None \<Rightarrow> ?s2 | Some p \<Rightarrow> if p = [] then ?s2 else loadURL p ?s2))"
    by (simp add: newTab_def Let_def split: option.split)
  show "notifications (newTab u a vid s) =
      notifications s @
        (case ipc s of
           None \<Rightarrow> []
         | Some e \<Rightarrow> [Active_update (Some vid),
                      Tabs_update (defTabConfigs (newTab u a vid s)) (tabs (newTab u a vid s))])"
    unfolding t c
    by (simp add: newTab_def Let_def log_effect_counts setTabConfig_counts loadURL_counts n2
        split: option.split)
qed

lemma close_tab_unfold:
  "close_tab i vid s =
     (let s4 = destroyView i
                 (set_tabConfigs ((defTabConfigs s)(i := None))
                    ((if Some i = defCurrentViewId s
                      then setCurrentView (successor (tabs s) i) s else s)
                       \<lparr>tabs := filter (\<lambda>v. v \<noteq> i) (tabs s)\<rparr>))
      in if filter (\<lambda>v. v \<noteq> i) (tabs s) = []
         then newTab (blankPage (options s)) None vid s4 else s4)"
  by (simp add: close_tab_def Let_def successor_def)

lemma three_tabs_ipc: "ipc three_tabs = Some 0"
  by (simp add: three_tabs_def)

text \<open>
  Claim C6, as stated, fails: creating a tab with an address recomputes the layout twice
  (once when the new view becomes active, once more in \<open>loadURL\<close>) and sends two
  messages (\<open>active-update\<close>, then \<open>tabs-update\<close>).
\<close>

theorem newTab_two_layouts:
  "layouts (newTab (Some ''https://a.test/'') None 4 three_tabs) = layouts three_tabs + 2
   \<and> length (notifications (newTab (Some ''https://a.test/'') None 4 three_tabs))
       = length (notifications three_tabs) + 2"
  by (simp add: newTab_counts three_tabs_ipc)

subsection \<open>What each operation shows, in order\<close>

lemma observe_append [simp]: "observe (xs @ ys) = observe xs @ observe ys"
  by (induction xs rule: observe.induct) simp_all

lemma log_effect_observed:
  "observations (log_effect x s) = observations s @ observe [x]"
  by (simp add: observations_def)

lemma field_update_observed [simp]:
  "observations (s\<lparr>defCurrentViewId := c\<rparr>) = observations s"
  "observations (s\<lparr>defTabConfigs := t\<rparr>) = observations s"
  "observations (s\<lparr>views := v\<rparr>) = observations s"
  "observations (s\<lparr>tabs := xs\<rparr>) = observations s"
  "observations (s\<lparr>ipc := h\<rparr>) = observations s"
  "observations (s\<lparr>controlView := b\<rparr>) = observations s"
  by (simp_all add: observations_def)

lemma setContentBounds_observed [simp]:
  "observations (setContentBounds s) = observations s @ [Relayout]"
  by (simp add: setContentBounds_def log_effect_observed)

lemma set_currentViewId_observed:
  "observations (set_currentViewId i s) =
     observations s @ Relayout # (case ipc s of None \<Rightarrow> [] | Some e \<Rightarrow> [Sent (Active_update i)])"
  by (simp add: set_currentViewId_def Let_def log_effect_observed split: option.split)

lemma set_tabConfigs_observed:
  "observations (set_tabConfigs v s) =
     observations s @ (case ipc s of None \<Rightarrow> [] | Some e \<Rightarrow> [Sent (Tabs_update v (tabs s))])"
  by (simp add: set_tabConfigs_def Let_def log_effect_observed split: option.split)

lemma setTabConfig_observed:
  "observations (setTabConfig i kv s) =
     observations s @
       (case ipc s of
          None \<Rightarrow> []
        | Some e \<Rightarrow> [Sent (Tabs_update (defTabConfigs (setTabConfig i kv s)) (tabs s))])"
  by (simp add: setTabConfig_def Let_def set_tabConfigs_observed split: option.split)

lemma loadURL_observed:
  "observations (loadURL u s) =
     observations s @ (case currentView s of
                         None \<Rightarrow> []
                       | Some (i, cv) \<Rightarrow> if u = [] \<or> wc_initialized cv then [] else [Relayout])"
  by (simp add: loadURL_def Let_def log_effect_observed split: option.split prod.split)

lemma setCurrentView_observed:
  "observations (setCurrentView v s) =
     observations s @
       (case v of
          None \<Rightarrow> []
        | Some i \<Rightarrow>
            if i = 0 then []
            else Relayout # (case ipc s of None \<Rightarrow> [] | Some e \<Rightarrow> [Sent (Active_update (Some i))]))"
  by (auto simp add: setCurrentView_def Let_def set_currentViewId_observed log_effect_observed
      split: option.split prod.split)

lemma destroyView_observed [simp]: "observations (destroyView i s) = observations s"
  by (simp add: destroyView_def log_effect_observed split: option.split)

lemma switchTab_observed:
  "observations (switchTab i s) =
     observations s @
       (if i = 0 then []
        else Relayout # (case ipc s of None \<Rightarrow> [] | Some e \<Rightarrow> [Sent (Active_update (Some i))]))"
  by (auto simp add: switchTab_def Let_def setCurrentView_observed log_effect_observed
      split: option.split prod.split)

lemma newTab_observed:
  assumes "vid \<noteq> 0" and "ipc s = Some e"
  shows "observations (newTab u a vid s) =
      observations s @ [Relayout, Sent (Active_update (Some vid))]
        @ (case u of None \<Rightarrow> [] | Some p \<Rightarrow> if p = [] then [] else [Relayout])
        @ [Sent (Tabs_update (defTabConfigs (newTab u a vid s)) (tabs (newTab u a vid s)))]"
proof -
  let ?s1 = "s\<lparr>tabs := (case a of
                     None \<Rightarrow> tabs s @ [vid]
                   | Some b \<Rightarrow>
                       if b = 0 then tabs s @ [vid]
                       else splice_insert (tabs s) (indexOf (tabs s) b + 1) vid),
               views := (views s)(vid := Some new_BrowserView)\<rparr>"
  let ?s2 = "setCurrentView (Some vid) ?s1"
  have cv: "currentView ?s2 = Some (vid, new_BrowserView)"
    using assms(1) by (intro currentView_fresh) (simp_all add: setCurrentView_current)
  have o2: "observations ?s2 = observations s @ [Relayout, Sent (Active_update (Some vid))]"
    using assms by (simp add: setCurrentView_observed)
  have ol: "observations (loadURL p ?s2) = observations ?s2 @ (if p = [] then [] else [Relayout])"
    for p
  proof -
    have "\<not> wc_initialized new_BrowserView" by (simp add: new_BrowserView_def)
    then show ?thesis by (simp add: loadURL_observed cv)
  qed
  have t: "tabs (newTab u a vid s) = tabs ?s1"
    by (simp add: newTab_tabs)
  have c: "defTabConfigs (newTab u a vid s) =
      defTabConfigs (setTabConfig vid
         (no_keys\<lparr>p_title :=
            Some (Some (case blankTitle (options s) of
                          None \<Rightarrow> ''about:blank''
                        | Some b \<Rightarrow> if b = [] then ''about:blank'' else b))\<rparr>)
         (case u of None \<Rightarrow> ?s2 | Some p \<Rightarrow> if p = [] then ?s2 else loadURL p ?s2))"
    by (simp add: newTab_def Let_def split: option.split)
  show ?thesis
    unfolding t c
    using assms(2)
    by (simp add: newTab_def Let_def log_effect_observed setTabConfig_observed ol o2
        split: option.split)
qed

lemma dropWhile_to: "i \<notin> set pre \<Longrightarrow> dropWhile (\<lambda>v. v \<noteq> i) (pre @ i # post) = i # post"
proof -
  assume "i \<notin> set pre"
  then have "\<forall>x\<in>set pre. x \<noteq> i" by blast
  then show ?thesis by (simp add: dropWhile_append3)
qed

lemma next_in_order_after:
  "i \<notin> set pre \<Longrightarrow> next_in_order (pre @ i # n # post) i = n"
  by (simp add: next_in_order_def dropWhile_to)

lemma next_in_order_last:
  "i \<notin> set pre \<Longrightarrow> next_in_order (pre @ [i]) i = hd (pre @ [i])"
  by (simp add: next_in_order_def dropWhile_to)

lemma successor_in_order:
  assumes "i \<in> set xs"
  shows "successor xs i = Some (next_in_order xs i)" and "next_in_order xs i \<in> set xs"
proof -
  from split_list_first [OF assms] obtain pre post
    where xs: "xs = pre @ i # post" and pre: "i \<notin> set pre" by blast
  have "successor xs i = Some (next_in_order xs i) \<and> next_in_order xs i \<in> set xs"
  proof (cases post)
    case Nil
    have "successor (pre @ [i]) i = Some (hd (pre @ [i]))"
      using pre by (rule successor_wrap)
    moreover have "next_in_order (pre @ [i]) i = hd (pre @ [i])"
      using pre by (rule next_in_order_last)
    moreover have "hd (pre @ [i]) \<in> set (pre @ [i])"
      by (cases pre) simp_all
    ultimately show ?thesis by (simp add: xs Nil)
  next
    case (Cons n post')
    have "successor (pre @ i # n # post') i = Some n"
      using pre by (rule successor_next)
    moreover have "next_in_order (pre @ i # n # post') i = n"
      using pre by (rule next_in_order_after)
    ultimately show ?thesis by (simp add: xs Cons)
  qed
  then show "successor xs i = Some (next_in_order xs i)" and "next_in_order xs i \<in> set xs"
    by simp_all
qed

lemma close_tab_observed:
  assumes i: "i \<in> set (tabs s)" and nz: "0 \<notin> set (tabs s)" and vid: "vid \<noteq> 0"
    and h: "ipc s = Some e"
  shows "observations (close_tab i vid s) =
      observations s
        @ (if defCurrentViewId s = Some i
           then [Relayout, Sent (Active_update (Some (next_in_order (tabs s) i)))] else [])
        @ [Sent (Tabs_update ((defTabConfigs s)(i := None)) (filter (\<lambda>v. v \<noteq> i) (tabs s)))]
        @ (if filter (\<lambda>v. v \<noteq> i) (tabs s) = []
           then [Relayout, Sent (Active_update (Some vid))]
             @ (case blankPage (options s) of
                  None \<Rightarrow> []
                | Some b \<Rightarrow> if b = [] then [] else [Relayout])
             @ [Sent (Tabs_update (defTabConfigs (close_tab i vid s)) (tabs (close_tab i vid s)))]
           else [])"
proof -
  let ?n = "next_in_order (tabs s) i"
  let ?s1 = "if Some i = defCurrentViewId s then setCurrentView (successor (tabs s) i) s else s"
  let ?s4 = "destroyView i
               (set_tabConfigs ((defTabConfigs s)(i := None))
                  (?s1\<lparr>tabs := filter (\<lambda>v. v \<noteq> i) (tabs s)\<rparr>))"
  from successor_in_order [OF i] nz have su: "successor (tabs s) i = Some ?n" and n0: "?n \<noteq> 0"
    by auto
  have o1: "observations ?s1 =
      observations s
        @ (if defCurrentViewId s = Some i then [Relayout, Sent (Active_update (Some ?n))] else [])"
    using h n0 by (auto simp add: setCurrentView_observed su)
  have i1: "ipc ?s1 = Some e" using h by simp
  have o4: "observations ?s4 =
      observations ?s1
        @ [Sent (Tabs_update ((defTabConfigs s)(i := None)) (filter (\<lambda>v. v \<noteq> i) (tabs s)))]"
    using i1 by (simp add: set_tabConfigs_observed)
  have i4: "ipc ?s4 = Some e" using h by simp
  have o4': "options ?s4 = options s" by simp
  show ?thesis
  proof (cases "filter (\<lambda>v. v \<noteq> i) (tabs s) = []")
    case True
    then have c: "close_tab i vid s = newTab (blankPage (options s)) None vid ?s4"
      by (simp add: close_tab_unfold Let_def)
    show ?thesis
      unfolding c newTab_observed [OF vid i4] o4 o1
      by (simp add: True)
  next
    case False
    then have c: "close_tab i vid s = ?s4"
      by (simp add: close_tab_unfold Let_def)
    show ?thesis
      unfolding c o4 o1 by (simp add: False)
  qed
qed

text \<open>
  Claim C6, amended. After the handshake each operation shows exactly the following, in
  this order and nothing else. Activating a tab with a non-zero identifier: one
  recomputation of the layout, then one \<open>active-update\<close> for that tab. Creating a tab, its
  identifier not zero: a recomputation of the layout, the \<open>active-update\<close> for the new tab,
  a second recomputation when a non-empty address is given, then one \<open>tabs-update\<close> with
  the new records and order; so two messages, and one or two recomputations. Closing a
  tab of an order that holds no zero: when the closed tab is the active one, first a
  recomputation of the layout and the \<open>active-update\<close> for the tab that follows it (the
  first tab when it is the last); then one \<open>tabs-update\<close> whose records and order are the
  old ones without the closed tab; and when no other tab is left, what creating the blank
  tab, its identifier not zero, shows.
\<close>

theorem effects_of_operations:
  assumes "ipc s = Some e"
  shows "(i \<noteq> 0
          \<longrightarrow> observations (switchTab i s)
              = observations s @ [Relayout, Sent (Active_update (Some i))])
    \<and> (vid \<noteq> 0
          \<longrightarrow> observations (newTab u a vid s)
              = observations s @ [Relayout, Sent (Active_update (Some vid))]
                  @ (case u of None \<Rightarrow> [] | Some p \<Rightarrow> if p = [] then [] else [Relayout])
                  @ [Sent (Tabs_update (defTabConfigs (newTab u a vid s))
                             (tabs (newTab u a vid s)))])
    \<and> (i \<in> set (tabs s) \<and> 0 \<notin> set (tabs s) \<and> vid \<noteq> 0
          \<longrightarrow> observations (close_tab i vid s)
              = observations s
                  @ (if defCurrentViewId s = Some i
                     then [Relayout, Sent (Active_update (Some (next_in_order (tabs s) i)))]
                     else [])
                  @ [Sent (Tabs_update ((defTabConfigs s)(i := None))
                             (filter (\<lambda>v. v \<noteq> i) (tabs s)))]
                  @ (if filter (\<lambda>v. v \<noteq> i) (tabs s) = []
                     then [Relayout, Sent (Active_update (Some vid))]
                       @ (case blankPage (options s) of
                            None \<Rightarrow> []
                          | Some b \<Rightarrow> if b = [] then [] else [Relayout])
                       @ [Sent (Tabs_update (defTabConfigs (close_tab i vid s))
                                  (tabs (close_tab i vid s)))]
                     else []))"
proof -
  have a: "i \<noteq> 0
          \<longrightarrow> observations (switchTab i s)
              = observations s @ [Relayout, Sent (Active_update (Some i))]"
    using assms by (simp add: switchTab_observed)
  have b: "vid \<noteq> 0
          \<longrightarrow> observations (newTab u a vid s)
              = observations s @ [Relayout, Sent (Active_update (Some vid))]
                  @ (case u of None \<Rightarrow> [] | Some p \<Rightarrow> if p = [] then [] else [Relayout])
                  @ [Sent (Tabs_update (defTabConfigs (newTab u a vid s))
                             (tabs (newTab u a vid s)))]"
    using newTab_observed [OF _ assms] by blast
  have c: "i \<in> set (tabs s) \<and> 0 \<notin> set (tabs s) \<and> vid \<noteq> 0
          \<longrightarrow> observations (close_tab i vid s)
              = observations s
                  @ (if defCurrentViewId s = Some i
                     then [Relayout, Sent (Active_update (Some (next_in_order (tabs s) i)))]
                     else [])
                  @ [Sent (Tabs_update ((defTabConfigs s)(i := None))
                             (filter (\<lambda>v. v \<noteq> i) (tabs s)))]
                  @ (if filter (\<lambda>v. v \<noteq> i) (tabs s) = []
                     then [Relayout, Sent (Active_update (Some vid))]
                       @ (case blankPage (options s) of
                            None \<Rightarrow> []
                          | Some b \<Rightarrow> if b = [] then [] else [Relayout])
                       @ [Sent (Tabs_update (defTabConfigs (close_tab i vid s))
                                  (tabs (close_tab i vid s)))]
                     else [])"
    using close_tab_observed [OF _ _ _ assms] by blast
  from a b c show ?thesis by (intro conjI)
qed

theorem effects_of_operations_witness:
  "ipc three_tabs = Some 0 \<and> (2::int) \<noteq> 0 \<and> (4::int) \<noteq> 0
   \<and> 2 \<in> set (tabs three_tabs) \<and> 0 \<notin> set (tabs three_tabs)
   \<and> defCurrentViewId three_tabs = Some 2
   \<and> observations (switchTab 2 three_tabs)
       = observations three_tabs @ [Relayout, Sent (Active_update (Some 2))]
   \<and> observations (newTab None None 4 three_tabs)
       = observations three_tabs
           @ [Relayout, Sent (Active_update (Some 4)),
              Sent (Tabs_update (defTabConfigs (newTab None None 4 three_tabs)) [1, 2, 3, 4])]
   \<and> observations (close_tab 2 4 three_tabs)
       = observations three_tabs
           @ [Relayout, Sent (Active_update (Some 3)),
              Sent (Tabs_update ((defTabConfigs three_tabs)(2 := None)) [1, 3])]"
proof -
  have h: "ipc three_tabs = Some 0" by (rule three_tabs_ipc)
  have n: "next_in_order (tabs three_tabs) 2 = 3"
    by (simp add: three_tabs_order next_in_order_def)
  from effects_of_operations [OF h, of 2 4 None None] h n
  show ?thesis
    by (simp add: three_tabs_order three_tabs_active newTab_tabs)
qed

subsection \<open>Before the handshake\<close>

lemma close_tab_ipc [simp]: "ipc (close_tab i vid s) = ipc s"
  by (simp add: close_tab_unfold Let_def)

lemma url_change_ipc [simp]: "ipc (url_change u s) = ipc s"
  by (simp add: url_change_def split: option.split)

lemma webContentsAct_ipc [simp]: "ipc (webContentsAct a s) = ipc s"
  by (simp add: webContentsAct_def split: option.split prod.split)

lemma fold_destroyView_ipc [simp]: "ipc (fold destroyView xs s) = ipc s"
  by (induction xs arbitrary: s) simp_all

lemma win_closed_ipc [simp]: "ipc (win_closed s) = ipc s"
  by (simp add: win_closed_def Let_def)

lemma listener_ipc [simp]: "ipc (listener i sig s) = ipc s"
  by (cases sig) simp_all

lemma listeners_ipc [simp]: "ipc ((listener i sig ^^ n) s) = ipc s"
  by (induction n) simp_all

lemma fire_ipc [simp]: "ipc (fire i sig s) = ipc s"
  by (simp add: fire_def split: option.split)

lemma window_open_ipc [simp]: "ipc (window_open hostOf i d vid s) = ipc s"
  by (simp add: window_open_def onNewWindow_def
      split: option.split window_handler.split sum.split prod.split if_split_asm)

lemma step_ipc: "\<not> is_handshake x \<Longrightarrow> ipc (step hostOf x vid s) = ipc s"
proof (cases x)
  case (Receive own c)
  assume "\<not> is_handshake x"
  with Receive show ?thesis by (cases c) (simp_all add: receive_def)
qed simp_all

lemma newTab_silent: "ipc s = None \<Longrightarrow> notifications (newTab u a vid s) = notifications s"
  by (simp add: newTab_def Let_def log_effect_counts setTabConfig_counts loadURL_counts
      setCurrentView_counts split: option.split)

lemma close_tab_silent: "ipc s = None \<Longrightarrow> notifications (close_tab i vid s) = notifications s"
  by (simp add: close_tab_unfold Let_def newTab_silent set_tabConfigs_counts
      setCurrentView_counts split: option.split)

lemma url_change_silent: "ipc s = None \<Longrightarrow> notifications (url_change u s) = notifications s"
  by (simp add: url_change_def setTabConfig_counts split: option.split)

lemma webContentsAct_silent [simp]: "notifications (webContentsAct a s) = notifications s"
  by (simp add: webContentsAct_def log_effect_counts split: option.split prod.split)

lemma fold_destroyView_silent [simp]:
  "notifications (fold destroyView xs s) = notifications s"
  by (induction xs arbitrary: s) simp_all

lemma win_closed_silent [simp]: "notifications (win_closed s) = notifications s"
  by (simp add: win_closed_def Let_def log_effect_counts)

lemma listener_silent: "ipc s = None \<Longrightarrow> notifications (listener i sig s) = notifications s"
  by (cases sig) (simp_all add: setTabConfig_counts log_effect_counts)

lemma listeners_silent:
  "ipc s = None \<Longrightarrow> notifications ((listener i sig ^^ n) s) = notifications s"
  by (induction n) (simp_all add: listener_silent)

lemma fire_silent: "ipc s = None \<Longrightarrow> notifications (fire i sig s) = notifications s"
  by (simp add: fire_def listeners_silent split: option.split)

lemma window_open_silent:
  "ipc s = None \<Longrightarrow> notifications (window_open hostOf i d vid s) = notifications s"
  by (simp add: window_open_def onNewWindow_def newTab_silent
      split: option.split window_handler.split)

lemma session_changed_silent [simp]:
  "notifications (session_changed i b f a s) = notifications s"
  by (simp add: session_changed_def split: option.split)

lemma switchTab_silent: "ipc s = None \<Longrightarrow> notifications (switchTab i s) = notifications s"
  by (simp add: switchTab_counts)

lemma step_silent:
  assumes "ipc s = None" and "\<not> is_handshake x"
  shows "notifications (step hostOf x vid s) = notifications s"
proof (cases x)
  case (Receive own c)
  with assms show ?thesis
    by (cases c)
      (simp_all add: receive_def newTab_silent close_tab_silent url_change_silent
        switchTab_silent loadURL_counts)
qed (simp_all add: assms newTab_silent fire_silent window_open_silent switchTab_silent
      loadURL_counts)

lemma run_silent:
  assumes "ipc s = None" and "list_all (\<lambda>x. \<not> is_handshake (fst x)) xs"
  shows "notifications (run hostOf xs s) = notifications s \<and> ipc (run hostOf xs s) = None"
  using assms
proof (induction xs arbitrary: s)
  case Nil
  then show ?case by simp
next
  case (Cons x xs)
  obtain y vid where x: "x = (y, vid)" by (cases x)
  from Cons.prems x have y: "\<not> is_handshake y" and rest: "list_all (\<lambda>x. \<not> is_handshake (fst x)) xs"
    by simp_all
  have "ipc (step hostOf y vid s) = None"
    using step_ipc [OF y] Cons.prems(1) by simp
  from Cons.IH [OF this rest] step_silent [OF Cons.prems(1) y]
  show ?case by (simp add: x)
qed

lemma control_ready_notifications:
  assumes "vid \<noteq> 0"
  shows "notifications (control_ready e vid s) =
     notifications s @
       [Active_update (Some vid),
        Tabs_update (defTabConfigs (control_ready e vid s)) (tabs (control_ready e vid s))]"
  using assms by (simp add: control_ready_def Let_def log_effect_counts newTab_counts)

text \<open>
  Claim C8. In every execution from the initial state that contains no handshake,
  whatever messages, method calls, signals and window requests it contains, no message
  has been replied to the control panel and no reply handle is held. Nothing is queued
  either: when the handshake is handled next, the messages replied are exactly the two of
  the tab the handshake itself opens.
\<close>

theorem silent_before_handshake:
  assumes "list_all (\<lambda>x. \<not> is_handshake (fst x)) xs"
  shows "notifications (run hostOf xs (init opts)) = []
    \<and> ipc (run hostOf xs (init opts)) = None
    \<and> (vid \<noteq> 0
          \<longrightarrow> notifications (control_ready e vid (run hostOf xs (init opts)))
              = [Active_update (Some vid),
                 Tabs_update (defTabConfigs (control_ready e vid (run hostOf xs (init opts))))
                   (tabs (control_ready e vid (run hostOf xs (init opts))))])"
proof -
  have i: "ipc (init opts) = None" and n: "notifications (init opts) = []"
    by (simp_all add: init_def notifications_def)
  from run_silent [OF i assms, of hostOf] n
  have q: "notifications (run hostOf xs (init opts)) = []"
    and h: "ipc (run hostOf xs (init opts)) = None"
    by simp_all
  have "vid \<noteq> 0
          \<longrightarrow> notifications (control_ready e vid (run hostOf xs (init opts)))
              = [Active_update (Some vid),
                 Tabs_update (defTabConfigs (control_ready e vid (run hostOf xs (init opts))))
                   (tabs (control_ready e vid (run hostOf xs (init opts))))]"
    using q by (simp add: control_ready_notifications)
  with q h show ?thesis by (intro conjI)
qed

theorem silent_before_handshake_witness:
  "list_all (\<lambda>x. \<not> is_handshake (fst x)) early_traffic
   \<and> tabs (run URL_host early_traffic (init plain_options)) = [2]
   \<and> notifications (run URL_host early_traffic (init plain_options)) = []
   \<and> ipc (run URL_host early_traffic (init plain_options)) = None
   \<and> length (notifications (control_ready 0 3 (run URL_host early_traffic (init plain_options))))
       = 2"
proof -
  have h: "list_all (\<lambda>x. \<not> is_handshake (fst x)) early_traffic"
    by (simp add: early_traffic_def)
  have c: "controlView (init plain_options)" by (simp add: init_def)
  have t: "tabs (run URL_host early_traffic (init plain_options)) = [2]"
    by (simp add: early_traffic_def receive_def c close_tab_tabs newTab_tabs init_def
        fire_def newTab_views url_change_def split: option.split)
  from silent_before_handshake [OF h, of URL_host plain_options 3 0] h t
  show ?thesis by simp
qed

subsection \<open>Wiring a session once\<close>

lemma views_wiredI: "(\<And>i v. views s i = Some v \<Longrightarrow> wired_once v) \<Longrightarrow> views_wired s"
  unfolding views_wired_def by blast

lemma views_wiredD: "views_wired s \<Longrightarrow> views s i = Some v \<Longrightarrow> wired_once v"
  unfolding views_wired_def by blast

lemma views_wired_same: "views_wired s \<Longrightarrow> views s' = views s \<Longrightarrow> views_wired s'"
  by (simp add: views_wired_def)

lemma views_wired_upd:
  assumes "views_wired s" and "wired_once v" and "views s' = (views s)(i := Some v)"
  shows "views_wired s'"
proof (rule views_wiredI)
  fix j w
  assume "views s' j = Some w"
  with assms(3) have "(j = i \<and> w = v) \<or> views s j = Some w"
    by (simp split: if_split_asm)
  with assms(1,2) show "wired_once w" by (auto dest: views_wiredD)
qed

lemma views_wired_del:
  assumes "views_wired s" and "views s' = (views s)(i := None)"
  shows "views_wired s'"
proof (rule views_wiredI)
  fix j w
  assume "views s' j = Some w"
  with assms(2) have "views s j = Some w"
    by (simp split: if_split_asm)
  with assms(1) show "wired_once w" by (rule views_wiredD)
qed

lemma if_wired: "views_wired a \<Longrightarrow> views_wired b \<Longrightarrow> views_wired (if c then a else b)"
  by simp

lemma currentView_views: "currentView s = Some (c, v) \<Longrightarrow> views s c = Some v"
  by (simp add: currentView_def split: option.split_asm if_split_asm)

lemma loadURL_wired_once:
  assumes "wired_once cv"
  shows "wired_once (cv\<lparr>wc_loads := wc_loads cv @ [u]\<rparr>)"
    and "\<not> wc_initialized cv \<Longrightarrow>
      wired_once (cv\<lparr>wc_handler := h, wc_handler_sets := Suc (wc_handler_sets cv),
                      wc_listener_sets := Suc (wc_listener_sets cv),
                      wc_loads := wc_loads cv @ [u], wc_initialized := True\<rparr>)"
  using assms by (simp_all add: wired_once_def)

lemma loadURL_views:
  "views (loadURL u s) =
     (case currentView s of
        None \<Rightarrow> views s
      | Some (i, cv) \<Rightarrow>
          if u = [] then views s
          else if wc_initialized cv
          then (views s)(i := Some (cv\<lparr>wc_loads := wc_loads cv @ [u]\<rparr>))
          else (views s)(i := Some (cv
                 \<lparr>wc_handler := Some (if custom_onNewWindow (options s) then Custom_handler
                                       else Default_handler i),
                  wc_handler_sets := Suc (wc_handler_sets cv),
                  wc_listener_sets := Suc (wc_listener_sets cv),
                  wc_loads := wc_loads cv @ [u], wc_initialized := True\<rparr>)))"
  by (simp add: loadURL_def Let_def split: option.split prod.split)


lemma loadURL_wired:
  assumes "views_wired s"
  shows "views_wired (loadURL u s)"
proof (cases "currentView s")
  case None
  then have "views (loadURL u s) = views s" by (simp add: loadURL_views)
  with assms show ?thesis by (rule views_wired_same)
next
  case (Some p)
  obtain c cv where p: "p = (c, cv)" by (cases p)
  from Some p have cur: "currentView s = Some (c, cv)" by simp
  then have vc: "views s c = Some cv" by (rule currentView_views)
  with assms have w: "wired_once cv" by (rule views_wiredD)
  show ?thesis
  proof (cases "u = []")
    case True
    with cur have "views (loadURL u s) = views s" by (simp add: loadURL_views)
    with assms show ?thesis by (rule views_wired_same)
  next
    case False
    show ?thesis
    proof (cases "wc_initialized cv")
      case True
      have "views (loadURL u s) = (views s)(c := Some (cv\<lparr>wc_loads := wc_loads cv @ [u]\<rparr>))"
        by (simp add: loadURL_views cur False True)
      with assms loadURL_wired_once(1) [OF w, of u] show ?thesis
        by (rule views_wired_upd)
    next
      case no: False
      let ?h = "Some (if custom_onNewWindow (options s) then Custom_handler
                      else Default_handler c)"
      have "views (loadURL u s) = (views s)(c := Some (cv
                 \<lparr>wc_handler := ?h,
                  wc_handler_sets := Suc (wc_handler_sets cv),
                  wc_listener_sets := Suc (wc_listener_sets cv),
                  wc_loads := wc_loads cv @ [u], wc_initialized := True\<rparr>))"
        by (simp add: loadURL_views cur False no)
      with assms loadURL_wired_once(2) [OF w no, of u ?h] show ?thesis
        by (rule views_wired_upd)
    qed
  qed
qed


lemma new_view_wired: "wired_once new_BrowserView"
  by (simp add: wired_once_def new_BrowserView_def)

lemma newTab_wired:
  assumes "views_wired s"
  shows "views_wired (newTab u a vid s)"
proof -
  let ?s1 = "s\<lparr>tabs := (case a of
                     None \<Rightarrow> tabs s @ [vid]
                   | Some b \<Rightarrow>
                       if b = 0 then tabs s @ [vid]
                       else splice_insert (tabs s) (indexOf (tabs s) b + 1) vid),
               views := (views s)(vid := Some new_BrowserView)\<rparr>"
  let ?s2 = "setCurrentView (Some vid) ?s1"
  have "views ?s2 = (views s)(vid := Some new_BrowserView)" by simp
  with assms new_view_wired have w2: "views_wired ?s2" by (rule views_wired_upd)
  have "views (newTab u a vid s) =
      views (case u of None \<Rightarrow> ?s2 | Some p \<Rightarrow> if p = [] then ?s2 else loadURL p ?s2)"
    by (simp add: newTab_def Let_def split: option.split)
  moreover have "views_wired (case u of None \<Rightarrow> ?s2 | Some p \<Rightarrow> if p = [] then ?s2 else loadURL p ?s2)"
    using w2 by (simp add: loadURL_wired split: option.split)
  ultimately show ?thesis by (rule views_wired_same [rotated])
qed




lemma destroyView_wired: "views_wired s \<Longrightarrow> views_wired (destroyView i s)"
  by (rule views_wired_del [where i = i]) simp_all

lemma fold_destroyView_wired: "views_wired s \<Longrightarrow> views_wired (fold destroyView xs s)"
  by (induction xs arbitrary: s) (simp_all add: destroyView_wired)

lemma close_tab_wired:
  assumes "views_wired s"
  shows "views_wired (close_tab i vid s)"
proof -
  let ?s3 = "set_tabConfigs ((defTabConfigs s)(i := None))
                    ((if Some i = defCurrentViewId s
                      then setCurrentView (successor (tabs s) i) s else s)
                       \<lparr>tabs := filter (\<lambda>v. v \<noteq> i) (tabs s)\<rparr>)"
  have "views ?s3 = views s" by simp
  with assms have "views_wired ?s3" by (rule views_wired_same)
  then have d: "views_wired (destroyView i ?s3)" by (rule destroyView_wired)
  show ?thesis
    unfolding close_tab_unfold Let_def by (intro if_wired newTab_wired d)
qed

lemma listener_views [simp]: "views (listener i sig s) = views s"
  by (cases sig) simp_all

lemma listeners_views [simp]: "views ((listener i sig ^^ n) s) = views s"
  by (induction n) simp_all

lemma fire_views [simp]: "views (fire i sig s) = views s"
  by (simp add: fire_def split: option.split)

lemma url_change_views [simp]: "views (url_change u s) = views s"
  by (simp add: url_change_def split: option.split)

lemma webContentsAct_views [simp]: "views (webContentsAct a s) = views s"
  by (simp add: webContentsAct_def split: option.split prod.split)

lemma control_ready_wired: "views_wired s \<Longrightarrow> views_wired (control_ready e vid s)"
proof -
  assume "views_wired s"
  then have "views_wired (s\<lparr>ipc := Some e\<rparr>)" by (simp add: views_wired_def)
  then have "views_wired (newTab (Some (case startPage (options s) of None \<Rightarrow> [] | Some p \<Rightarrow> p))
      None vid (s\<lparr>ipc := Some e\<rparr>))"
    by (rule newTab_wired)
  then show ?thesis
    by (simp add: control_ready_def Let_def views_wired_def)
qed

lemma window_open_wired: "views_wired s \<Longrightarrow> views_wired (window_open hostOf i d vid s)"
  by (simp add: window_open_def onNewWindow_def newTab_wired
      split: option.split window_handler.split)

lemma session_changed_wired:
  assumes "views_wired s"
  shows "views_wired (session_changed i b f a s)"
proof (cases "views s i")
  case None
  with assms show ?thesis by (simp add: session_changed_def)
next
  case (Some v)
  with assms have "wired_once v" by (rule views_wiredD)
  then have "wired_once (v\<lparr>wc_canGoBack := b, wc_canGoForward := f, wc_URL := a\<rparr>)"
    by (simp add: wired_once_def)
  with assms show ?thesis
    by (rule views_wired_upd) (simp add: session_changed_def Some)
qed

lemma win_closed_wired: "views_wired s \<Longrightarrow> views_wired (win_closed s)"
proof -
  assume "views_wired s"
  then have "views_wired (fold destroyView (tabs s) s)" by (rule fold_destroyView_wired)
  then show ?thesis by (simp add: win_closed_def Let_def views_wired_def)
qed

lemma url_change_wired: "views_wired s \<Longrightarrow> views_wired (url_change u s)"
  by (rule views_wired_same) simp_all

lemma webContentsAct_wired: "views_wired s \<Longrightarrow> views_wired (webContentsAct a s)"
  by (rule views_wired_same) simp_all

lemma switchTab_wired: "views_wired s \<Longrightarrow> views_wired (switchTab i s)"
  by (rule views_wired_same) simp_all

lemma fire_wired: "views_wired s \<Longrightarrow> views_wired (fire i sig s)"
  by (rule views_wired_same) simp_all

lemma channels_wired:
  assumes "views_wired s"
  shows "views_wired (channels c vid s)"
  using assms
  by (cases c)
    (simp_all add: control_ready_wired loadURL_wired newTab_wired close_tab_wired
      url_change_wired webContentsAct_wired switchTab_wired)

lemma step_wired:
  assumes "views_wired s"
  shows "views_wired (step hostOf x vid s)"
  using assms
  by (cases x)
    (simp_all add: receive_def channels_wired newTab_wired loadURL_wired switchTab_wired
      fire_wired window_open_wired session_changed_wired win_closed_wired)

lemma run_wired: "views_wired s \<Longrightarrow> views_wired (run hostOf xs s)"
proof (induction xs arbitrary: s)
  case Nil
  then show ?case by simp
next
  case (Cons x xs)
  obtain y vid where "x = (y, vid)" by (cases x)
  with Cons show ?case by (simp add: step_wired)
qed

lemma init_wired: "views_wired (init opts)"
  by (simp add: views_wired_def init_def)

lemma currentView_loadURL:
  assumes "currentView s = Some (c, v)"
  shows "currentView (loadURL u s) =
     Some (c, if u = [] then v
              else if wc_initialized v then v\<lparr>wc_loads := wc_loads v @ [u]\<rparr>
              else v\<lparr>wc_handler := Some (if custom_onNewWindow (options s) then Custom_handler
                                          else Default_handler c),
                     wc_handler_sets := Suc (wc_handler_sets v),
                     wc_listener_sets := Suc (wc_listener_sets v),
                     wc_loads := wc_loads v @ [u], wc_initialized := True\<rparr>)"
proof -
  from assms have c: "defCurrentViewId s = Some c" "c \<noteq> 0" "views s c = Some v"
    by (auto simp: currentView_def split: option.split_asm if_split_asm)
  have "defCurrentViewId (loadURL u s) = Some c" using c by simp
  moreover have "views (loadURL u s) c =
     Some (if u = [] then v
              else if wc_initialized v then v\<lparr>wc_loads := wc_loads v @ [u]\<rparr>
              else v\<lparr>wc_handler := Some (if custom_onNewWindow (options s) then Custom_handler
                                          else Default_handler c),
                     wc_handler_sets := Suc (wc_handler_sets v),
                     wc_listener_sets := Suc (wc_listener_sets v),
                     wc_loads := wc_loads v @ [u], wc_initialized := True\<rparr>)"
    using c by (simp add: loadURL_views assms)
  ultimately show ?thesis using c(2) by (simp add: currentView_def)
qed

lemma loadURL_sequence:
  assumes "currentView s = Some (c, v)" and "wired_once v"
  shows "\<exists>v'. currentView (fold loadURL us s) = Some (c, v') \<and> wired_once v'
     \<and> wc_initialized v' = (wc_initialized v \<or> list_ex (\<lambda>u. u \<noteq> []) us)
     \<and> wc_loads v' = wc_loads v @ filter (\<lambda>u. u \<noteq> []) us"
  using assms
proof (induction us arbitrary: s v)
  case Nil
  then show ?case by simp
next
  case (Cons u us)
  let ?v1 = "if u = [] then v
              else if wc_initialized v then v\<lparr>wc_loads := wc_loads v @ [u]\<rparr>
              else v\<lparr>wc_handler := Some (if custom_onNewWindow (options s) then Custom_handler
                                          else Default_handler c),
                     wc_handler_sets := Suc (wc_handler_sets v),
                     wc_listener_sets := Suc (wc_listener_sets v),
                     wc_loads := wc_loads v @ [u], wc_initialized := True\<rparr>"
  have cur: "currentView (loadURL u s) = Some (c, ?v1)"
    using Cons.prems(1) by (rule currentView_loadURL)
  have w: "wired_once ?v1"
    using Cons.prems(2) by (simp add: wired_once_def)
  have i: "wc_initialized ?v1 = (wc_initialized v \<or> u \<noteq> [])" by simp
  have l: "wc_loads ?v1 = wc_loads v @ (if u = [] then [] else [u])" by simp
  from Cons.IH [OF cur w] obtain v'
    where "currentView (fold loadURL us (loadURL u s)) = Some (c, v')" "wired_once v'"
      "wc_initialized v' = (wc_initialized ?v1 \<or> list_ex (\<lambda>u. u \<noteq> []) us)"
      "wc_loads v' = wc_loads ?v1 @ filter (\<lambda>u. u \<noteq> []) us"
    by blast
  then have "currentView (fold loadURL (u # us) s) = Some (c, v') \<and> wired_once v'
     \<and> wc_initialized v' = (wc_initialized v \<or> list_ex (\<lambda>u. u \<noteq> []) (u # us))
     \<and> wc_loads v' = wc_loads v @ filter (\<lambda>u. u \<noteq> []) (u # us)"
    unfolding i l by auto
  then show ?case by blast
qed

lemma reachable_wired: "views_wired (run hostOf xs (init opts))"
  using init_wired by (rule run_wired)

text \<open>
  Claim C9. In every state an execution reaches from the initial state, every live
  session carries at most one set of navigation listeners and has had its window-open
  handler installed at most once. And for the active view of such a state and every
  sequence of \<open>loadURL\<close> calls that follows: afterwards its session carries exactly one set
  of listeners and one installation of the handler if it was wired before or one of the
  addresses is not empty, and none otherwise; and the session has been asked to load
  exactly the non-empty addresses, in their order. So the first call that navigates wires
  the session, and every later call only loads.
\<close>

theorem listeners_registered_once:
  "(\<forall>i w. views (run hostOf xs (init opts)) i = Some w
       \<longrightarrow> wc_listener_sets w \<le> 1 \<and> wc_handler_sets w \<le> 1)
   \<and> (\<forall>c v. currentView (run hostOf xs (init opts)) = Some (c, v)
       \<longrightarrow> (\<exists>v'. views (fold loadURL us (run hostOf xs (init opts))) c = Some v'
              \<and> wc_listener_sets v'
                  = (if wc_initialized v \<or> list_ex (\<lambda>u. u \<noteq> []) us then 1 else 0)
              \<and> wc_handler_sets v'
                  = (if wc_initialized v \<or> list_ex (\<lambda>u. u \<noteq> []) us then 1 else 0)
              \<and> wc_loads v' = wc_loads v @ filter (\<lambda>u. u \<noteq> []) us))"
proof (intro conjI allI impI)
  fix i w
  assume "views (run hostOf xs (init opts)) i = Some w"
  with reachable_wired have "wired_once w" by (rule views_wiredD)
  then show "wc_listener_sets w \<le> 1" and "wc_handler_sets w \<le> 1"
    by (simp_all add: wired_once_def)
next
  fix c v
  let ?s = "run hostOf xs (init opts)"
  assume cur: "currentView ?s = Some (c, v)"
  then have "views ?s c = Some v" by (rule currentView_views)
  with reachable_wired have w: "wired_once v" by (rule views_wiredD)
  from loadURL_sequence [OF cur w, of us] obtain v'
    where v': "currentView (fold loadURL us ?s) = Some (c, v')" "wired_once v'"
      "wc_initialized v' = (wc_initialized v \<or> list_ex (\<lambda>u. u \<noteq> []) us)"
      "wc_loads v' = wc_loads v @ filter (\<lambda>u. u \<noteq> []) us"
    by blast
  from v'(1) have "views (fold loadURL us ?s) c = Some v'" by (rule currentView_views)
  moreover from v'(2,3) have
    "wc_listener_sets v' = (if wc_initialized v \<or> list_ex (\<lambda>u. u \<noteq> []) us then 1 else 0)"
    "wc_handler_sets v' = (if wc_initialized v \<or> list_ex (\<lambda>u. u \<noteq> []) us then 1 else 0)"
    by (simp_all add: wired_once_def)
  ultimately show "\<exists>v'. views (fold loadURL us ?s) c = Some v'
              \<and> wc_listener_sets v'
                  = (if wc_initialized v \<or> list_ex (\<lambda>u. u \<noteq> []) us then 1 else 0)
              \<and> wc_handler_sets v'
                  = (if wc_initialized v \<or> list_ex (\<lambda>u. u \<noteq> []) us then 1 else 0)
              \<and> wc_loads v' = wc_loads v @ filter (\<lambda>u. u \<noteq> []) us"
    using v'(4) by blast
qed

theorem listeners_registered_once_witness:
  "currentView (run URL_host [(Receive True (Control_ready 0), 1)] (init plain_options))
     = Some (1, new_BrowserView)
   \<and> map_option wc_listener_sets
        (views (fold loadURL [''https://a.test/'', [], ''https://b.test/'']
                  (run URL_host [(Receive True (Control_ready 0), 1)] (init plain_options))) 1)
       = Some 1
   \<and> map_option wc_handler_sets
        (views (fold loadURL [''https://a.test/'', [], ''https://b.test/'']
                  (run URL_host [(Receive True (Control_ready 0), 1)] (init plain_options))) 1)
       = Some 1
   \<and> map_option wc_loads
        (views (fold loadURL [''https://a.test/'', [], ''https://b.test/'']
                  (run URL_host [(Receive True (Control_ready 0), 1)] (init plain_options))) 1)
       = Some [''https://a.test/'', ''https://b.test/'']"
proof -
  let ?s = "run URL_host [(Receive True (Control_ready 0), 1)] (init plain_options)"
  let ?us = "[''https://a.test/'', [], ''https://b.test/'']"
  have s: "?s = control_ready 0 1 (init plain_options)"
    by (simp add: receive_def init_def)
  have c1: "defCurrentViewId (control_ready 0 1 (init plain_options)) = Some 1"
    by (simp add: control_ready_current)
  have v1: "views (control_ready 0 1 (init plain_options)) 1 = Some new_BrowserView"
    by (simp add: control_ready_def Let_def newTab_views init_def plain_options_def)
  have cur: "currentView ?s = Some (1, new_BrowserView)"
    unfolding s using _ c1 v1 by (rule currentView_fresh) simp
  from listeners_registered_once [of URL_host "[(Receive True (Control_ready 0), 1)]"
      plain_options ?us]
  have "\<forall>c v. currentView ?s = Some (c, v)
       \<longrightarrow> (\<exists>v'. views (fold loadURL ?us ?s) c = Some v'
              \<and> wc_listener_sets v'
                  = (if wc_initialized v \<or> list_ex (\<lambda>u. u \<noteq> []) ?us then 1 else 0)
              \<and> wc_handler_sets v'
                  = (if wc_initialized v \<or> list_ex (\<lambda>u. u \<noteq> []) ?us then 1 else 0)
              \<and> wc_loads v' = wc_loads v @ filter (\<lambda>u. u \<noteq> []) ?us)"
    by (rule conjunct2)
  from this [rule_format, OF cur] obtain v'
    where "views (fold loadURL ?us ?s) 1 = Some v'"
      "wc_listener_sets v' = 1" "wc_handler_sets v' = 1"
      "wc_loads v' = [''https://a.test/'', ''https://b.test/'']"
    by (auto simp: new_BrowserView_def)
  with cur show ?thesis by simp
qed

subsection \<open>A page that navigates in place\<close>

lemma listener_fields [simp]:
  "options (listener i sig s) = options s"
  "defCurrentViewId (listener i sig s) = defCurrentViewId s"
  "tabs (listener i sig s) = tabs s"
  "controlView (listener i sig s) = controlView s"
  by (cases sig; simp)+

lemma listeners_fields [simp]:
  "options ((listener i sig ^^ n) s) = options s"
  "defCurrentViewId ((listener i sig ^^ n) s) = defCurrentViewId s"
  "tabs ((listener i sig ^^ n) s) = tabs s"
  "controlView ((listener i sig ^^ n) s) = controlView s"
  by (induction n) simp_all

lemma fire_fields [simp]:
  "options (fire i sig s) = options s"
  "defCurrentViewId (fire i sig s) = defCurrentViewId s"
  "tabs (fire i sig s) = tabs s"
  "controlView (fire i sig s) = controlView s"
  by (simp_all add: fire_def split: option.split)

lemma fire_once:
  "views s i = Some v \<Longrightarrow> wc_listener_sets v = 1 \<Longrightarrow> fire i sig s = listener i sig s"
  by (simp add: fire_def)

lemma session_changed_views:
  "views s i = Some v \<Longrightarrow>
   views (session_changed i b f a s) =
     (views s)(i := Some (v\<lparr>wc_canGoBack := b, wc_canGoForward := f, wc_URL := a\<rparr>))"
  by (simp add: session_changed_def)

lemma navigated_window_steps:
  "defCurrentViewId navigated_window = Some 1"
  "tabs navigated_window = [1]"
  "views navigated_window 1 =
     Some (new_BrowserView
       \<lparr>wc_handler := Some (Default_handler 1), wc_handler_sets := 1, wc_listener_sets := 1,
        wc_loads := [''https://a.test/''], wc_initialized := True,
        wc_canGoBack := True, wc_canGoForward := False, wc_URL := ''https://a.test/#top''\<rparr>)"
  "map_option canGoBack (defTabConfigs navigated_window 1) = Some (Some False)"
proof -
  let ?s1 = "control_ready 0 1 (init plain_options)"
  let ?s2 = "loadURL ''https://a.test/'' ?s1"
  let ?s3 = "fire 1 Did_start_loading ?s2"
  let ?s4 = "fire 1 (Did_start_navigation ''https://a.test/'' False True) ?s3"
  let ?s5 = "session_changed 1 False False ''https://a.test/'' ?s4"
  let ?s6 = "fire 1 (Page_title_updated ''A'') ?s5"
  let ?s7 = "fire 1 Did_stop_loading ?s6"
  let ?s8 = "fire 1 (Did_start_navigation ''https://a.test/#top'' True True) ?s7"
  let ?s9 = "session_changed 1 True False ''https://a.test/#top'' ?s8"
  let ?w = "new_BrowserView
       \<lparr>wc_handler := Some (Default_handler 1), wc_handler_sets := 1, wc_listener_sets := 1,
        wc_loads := [''https://a.test/''], wc_initialized := True\<rparr>"
  have n: "navigated_window = ?s9"
    by (simp add: navigated_window_def in_page_navigation_def receive_def init_def)
  have c1: "defCurrentViewId ?s1 = Some 1" by (simp add: control_ready_current)
  have v1: "views ?s1 1 = Some new_BrowserView"
    by (simp add: control_ready_def Let_def newTab_views init_def plain_options_def)
  have cur1: "currentView ?s1 = Some (1, new_BrowserView)"
    using _ c1 v1 by (rule currentView_fresh) simp
  have o1: "\<not> custom_onNewWindow (options ?s1)"
    by (simp add: init_def plain_options_def)
  have "currentView ?s2 = Some (1, ?w)"
    using currentView_loadURL [OF cur1, of "''https://a.test/''"] o1
    by (simp add: new_BrowserView_def)
  then have v2: "views ?s2 1 = Some ?w" by (rule currentView_views)
  have v4: "views ?s4 1 = Some ?w" using v2 by simp
  have v5: "views ?s5 1 = Some (?w\<lparr>wc_canGoBack := False, wc_canGoForward := False,
      wc_URL := ''https://a.test/''\<rparr>)"
    by (simp add: session_changed_views [OF v4])
  then have v7: "views ?s7 1 = Some (?w\<lparr>wc_canGoBack := False, wc_canGoForward := False,
      wc_URL := ''https://a.test/''\<rparr>)"
    by simp
  have l7: "wc_listener_sets (?w\<lparr>wc_canGoBack := False, wc_canGoForward := False,
      wc_URL := ''https://a.test/''\<rparr>) = 1"
    by simp
  have s8: "?s8 = listener 1 (Did_start_navigation ''https://a.test/#top'' True True) ?s7"
    using v7 l7 by (rule fire_once)
  have b7: "session_canGoBack ?s7 1 = False"
    by (simp add: session_canGoBack_def v5 new_BrowserView_def)
  have r8: "map_option canGoBack (defTabConfigs ?s8 1) = Some (Some False)"
    unfolding s8 by (simp add: setTabConfig_record spread_def no_keys_def b7)
  have v8: "views ?s8 1 = Some (?w\<lparr>wc_canGoBack := False, wc_canGoForward := False,
      wc_URL := ''https://a.test/''\<rparr>)"
    using v7 by simp
  show "defCurrentViewId navigated_window = Some 1"
    unfolding n using c1 by simp
  show "tabs navigated_window = [1]"
    unfolding n by (simp add: init_def)
  show "views navigated_window 1 =
     Some (new_BrowserView
       \<lparr>wc_handler := Some (Default_handler 1), wc_handler_sets := 1, wc_listener_sets := 1,
        wc_loads := [''https://a.test/''], wc_initialized := True,
        wc_canGoBack := True, wc_canGoForward := False, wc_URL := ''https://a.test/#top''\<rparr>)"
    unfolding n by (simp add: session_changed_views [OF v8])
  show "map_option canGoBack (defTabConfigs navigated_window 1) = Some (Some False)"
    unfolding n using r8 by simp
qed

subsection \<open>Merging while the session has moved on\<close>

text \<open>
  Claim C5, as stated, fails for a patch that carries the key itself: the patch is spread
  last, so its value stands in the record whatever the session answers.
\<close>

theorem setTabConfig_patch_wins:
  "session_canGoBack three_tabs 2 = False
   \<and> map_option canGoBack
        (defTabConfigs (setTabConfig 2 (no_keys\<lparr>p_canGoBack := Some (Some True)\<rparr>) three_tabs) 2)
       = Some (Some True)"
  by (simp add: setTabConfig_record spread_def no_keys_def session_canGoBack_def
      three_tabs_view new_BrowserView_def)

text \<open>
  Claim C5, amended. After a merge by \<open>setTabConfig\<close> with a patch that has no \<open>canGoBack\<close>
  key, the \<open>canGoBack\<close> of the record is what the session of the view answers at the merge,
  and false when the view is absent; the same holds for \<open>canGoForward\<close>. A patch that has
  the key puts its own value in the record.
\<close>

theorem setTabConfig_refreshes:
  "(p_canGoBack kv = None
      \<longrightarrow> map_option canGoBack (defTabConfigs (setTabConfig i kv s) i)
          = Some (Some (case views s i of None \<Rightarrow> False | Some v \<Rightarrow> wc_canGoBack v)))
   \<and> (p_canGoForward kv = None
      \<longrightarrow> map_option canGoForward (defTabConfigs (setTabConfig i kv s) i)
          = Some (Some (case views s i of None \<Rightarrow> False | Some v \<Rightarrow> wc_canGoForward v)))
   \<and> (\<forall>b. p_canGoBack kv = Some b
      \<longrightarrow> map_option canGoBack (defTabConfigs (setTabConfig i kv s) i) = Some b)
   \<and> (\<forall>b. p_canGoForward kv = Some b
      \<longrightarrow> map_option canGoForward (defTabConfigs (setTabConfig i kv s) i) = Some b)"
  by (simp add: setTabConfig_record spread_def session_canGoBack_def session_canGoForward_def)

theorem setTabConfig_refreshes_witness:
  "p_canGoBack (no_keys\<lparr>p_title := Some (Some ''B'')\<rparr>) = None
   \<and> map_option canGoBack (defTabConfigs navigated_window 1) = Some (Some False)
   \<and> map_option wc_canGoBack (views navigated_window 1) = Some True
   \<and> map_option canGoBack
        (defTabConfigs (setTabConfig 1 (no_keys\<lparr>p_title := Some (Some ''B'')\<rparr>) navigated_window) 1)
       = Some (Some True)"
proof -
  note v = navigated_window_steps(3)
  have k: "p_canGoBack (no_keys\<lparr>p_title := Some (Some ''B'')\<rparr>) = None"
    by (simp add: no_keys_def)
  from setTabConfig_refreshes [of "no_keys\<lparr>p_title := Some (Some ''B'')\<rparr>" 1 navigated_window] k
  have "map_option canGoBack
        (defTabConfigs (setTabConfig 1 (no_keys\<lparr>p_title := Some (Some ''B'')\<rparr>) navigated_window) 1)
       = Some (Some True)"
    by (simp add: v)
  with k show ?thesis by (simp add: navigated_window_steps(4) v)
qed

subsection \<open>The address bar\<close>

lemma setTabConfig_effects:
  "effects (setTabConfig i kv s) =
     effects s @ (case ipc s of
                    None \<Rightarrow> []
                  | Some e \<Rightarrow> [Reply e (Tabs_update (defTabConfigs (setTabConfig i kv s)) (tabs s))])"
  by (simp add: setTabConfig_def set_tabConfigs_def Let_def split: option.split)

text \<open>
  Claim C7, as stated, fails: \<open>url-change\<close> merges through \<open>setTabConfig\<close>, which also
  refreshes \<open>canGoBack\<close> and \<open>canGoForward\<close> of the record from the session. After the
  page of the active tab has added a history entry, the record still says that the tab
  cannot go back, and \<open>url-change\<close> turns that field to true.
\<close>

theorem url_change_refreshes:
  "defCurrentViewId navigated_window = Some 1
   \<and> map_option canGoBack (defTabConfigs navigated_window 1) = Some (Some False)
   \<and> map_option canGoBack (defTabConfigs (url_change ''https://b.test/'' navigated_window) 1)
       = Some (Some True)"
  by (simp add: navigated_window_steps(1,4) url_change_def setTabConfig_record spread_def
      no_keys_def session_canGoBack_def navigated_window_steps(3))

text \<open>
  Claim C7, amended. When a tab \<open>c\<close> is active, \<open>url-change\<close> with the payload \<open>u\<close> sets
  the \<open>url\<close> of the record of \<open>c\<close> to \<open>u\<close> and sets its \<open>canGoBack\<close> and \<open>canGoForward\<close> to
  what the session of \<open>c\<close> answers (false without a view); the other fields of that record
  keep their values (a record that did not exist starts without them), and the other
  records, the tab order, the active pointer, the views, the options and the reply handle
  are unchanged. The trace grows by the one \<open>tabs-update\<close> message, if the handshake has
  happened.
\<close>

theorem url_change_frame:
  assumes "defCurrentViewId s = Some c" and "c \<noteq> 0"
  shows "defTabConfigs (url_change u s) c =
      Some ((case defTabConfigs s c of None \<Rightarrow> no_fields | Some t \<Rightarrow> t)
              \<lparr>url := Some u,
               canGoBack := Some (case views s c of None \<Rightarrow> False | Some v \<Rightarrow> wc_canGoBack v),
               canGoForward :=
                 Some (case views s c of None \<Rightarrow> False | Some v \<Rightarrow> wc_canGoForward v)\<rparr>)
    \<and> (\<forall>k. k \<noteq> c \<longrightarrow> defTabConfigs (url_change u s) k = defTabConfigs s k)
    \<and> tabs (url_change u s) = tabs s
    \<and> defCurrentViewId (url_change u s) = defCurrentViewId s
    \<and> views (url_change u s) = views s
    \<and> options (url_change u s) = options s
    \<and> ipc (url_change u s) = ipc s
    \<and> controlView (url_change u s) = controlView s
    \<and> effects (url_change u s) =
        effects s @ (case ipc s of
                       None \<Rightarrow> []
                     | Some e \<Rightarrow>
                         [Reply e (Tabs_update (defTabConfigs (url_change u s)) (tabs s))])"
proof -
  have u: "url_change u s = setTabConfig c (no_keys\<lparr>p_url := Some (Some u)\<rparr>) s"
    using assms by (simp add: url_change_def)
  have r: "defTabConfigs (url_change u s) c =
      Some ((case defTabConfigs s c of None \<Rightarrow> no_fields | Some t \<Rightarrow> t)
              \<lparr>url := Some u,
               canGoBack := Some (case views s c of None \<Rightarrow> False | Some v \<Rightarrow> wc_canGoBack v),
               canGoForward :=
                 Some (case views s c of None \<Rightarrow> False | Some v \<Rightarrow> wc_canGoForward v)\<rparr>)"
    unfolding u
    by (simp add: setTabConfig_record spread_def no_keys_def session_canGoBack_def
        session_canGoForward_def)
  have o: "\<forall>k. k \<noteq> c \<longrightarrow> defTabConfigs (url_change u s) k = defTabConfigs s k"
    unfolding u by (simp add: setTabConfig_other)
  have e: "effects (url_change u s) =
        effects s @ (case ipc s of
                       None \<Rightarrow> []
                     | Some e \<Rightarrow>
                         [Reply e (Tabs_update (defTabConfigs (url_change u s)) (tabs s))])"
    unfolding u by (rule setTabConfig_effects)
  have f: "tabs (url_change u s) = tabs s" "defCurrentViewId (url_change u s) = defCurrentViewId s"
    "views (url_change u s) = views s" "options (url_change u s) = options s"
    "ipc (url_change u s) = ipc s" "controlView (url_change u s) = controlView s"
    unfolding u by simp_all
  from r o e f show ?thesis by (intro conjI)
qed

theorem url_change_frame_witness:
  "defCurrentViewId three_tabs = Some 2 \<and> (2::int) \<noteq> 0
   \<and> defTabConfigs (url_change ''https://b.test/'' three_tabs) 2 =
       Some (no_fields\<lparr>url := Some ''https://b.test/'', canGoBack := Some False,
                        canGoForward := Some False, title := Some ''about:blank''\<rparr>)
   \<and> defTabConfigs (url_change ''https://b.test/'' three_tabs) 1 = defTabConfigs three_tabs 1
   \<and> tabs (url_change ''https://b.test/'' three_tabs) = [1, 2, 3]"
proof -
  have h: "defCurrentViewId three_tabs = Some 2" "(2::int) \<noteq> 0"
    by (simp_all add: three_tabs_active)
  from url_change_frame [OF h, of "''https://b.test/''"]
  show ?thesis using h
    by (simp add: three_tabs_record three_tabs_view three_tabs_order new_BrowserView_def
        no_fields_def)
qed

subsection \<open>The order in every execution\<close>

lemma url_change_tabs [simp]: "tabs (url_change u s) = tabs s"
  by (simp add: url_change_def split: option.split)

lemma webContentsAct_tabs [simp]: "tabs (webContentsAct a s) = tabs s"
  by (simp add: webContentsAct_def split: option.split prod.split)

lemma fold_destroyView_tabs [simp]: "tabs (fold destroyView xs s) = tabs s"
  by (induction xs arbitrary: s) simp_all

lemma win_closed_tabs [simp]: "tabs (win_closed s) = tabs s"
  by (simp add: win_closed_def Let_def)

lemma newTab_tabs_ok:
  assumes "tabs_ok (tabs s)" and "vid \<noteq> 0" and "vid \<notin> set (tabs s)"
  shows "tabs_ok (tabs (newTab u a vid s))"
  using assms by (simp add: newTab_tabs tabs_ok_def split: option.split)

lemma close_tab_tabs_ok:
  assumes "tabs_ok (tabs s)" and "vid \<noteq> 0"
  shows "tabs_ok (tabs (close_tab i vid s))"
  using assms by (simp add: close_tab_tabs tabs_ok_def)

lemma window_open_tabs_ok:
  assumes "tabs_ok (tabs s)" and "vid \<noteq> 0" and "vid \<notin> set (tabs s)"
  shows "tabs_ok (tabs (window_open hostOf i d vid s))"
  using assms
  by (simp add: window_open_def onNewWindow_def newTab_tabs_ok
      split: option.split window_handler.split)

lemma channels_tabs_ok:
  assumes "tabs_ok (tabs s)" and "vid \<noteq> 0" and "vid \<notin> set (tabs s)"
  shows "tabs_ok (tabs (channels c vid s))"
proof (cases c)
  case (Control_ready e)
  with assms show ?thesis by (simp add: tabs_ok_def)
qed (simp_all add: assms newTab_tabs_ok close_tab_tabs_ok)

lemma step_tabs_ok:
  assumes "tabs_ok (tabs s)" and "vid \<noteq> 0" and "vid \<notin> set (tabs s)"
  shows "tabs_ok (tabs (step hostOf x vid s))"
  using assms
  by (cases x)
    (simp_all add: receive_def channels_tabs_ok newTab_tabs_ok window_open_tabs_ok)

lemma run_tabs_ok:
  "tabs_ok (tabs s) \<Longrightarrow> fresh_run hostOf xs s \<Longrightarrow> tabs_ok (tabs (run hostOf xs s))"
proof (induction xs arbitrary: s)
  case Nil
  then show ?case by simp
next
  case (Cons x xs)
  obtain y vid where x: "x = (y, vid)" by (cases x)
  from Cons.prems x have f: "vid \<noteq> 0" "vid \<notin> set (tabs s)"
    and rest: "fresh_run hostOf xs (step hostOf y vid s)"
    by simp_all
  from Cons.prems(1) f have "tabs_ok (tabs (step hostOf y vid s))" by (rule step_tabs_ok)
  from Cons.IH [OF this rest] show ?case by (simp add: x)
qed

lemma reachable_tabs_ok:
  assumes "fresh_run hostOf xs (init opts)"
  shows "distinct (tabs (run hostOf xs (init opts)))"
    and "0 \<notin> set (tabs (run hostOf xs (init opts)))"
proof -
  have "tabs_ok (tabs (init opts))" by (simp add: tabs_ok_def init_def)
  from run_tabs_ok [OF this assms] show "distinct (tabs (run hostOf xs (init opts)))"
    and "0 \<notin> set (tabs (run hostOf xs (init opts)))"
    by (simp_all add: tabs_ok_def)
qed

end
